theory Spec2Isabelle
  imports Main "HOL-Library.Word" "HOL-Library.Multiset"
begin

section \<open>Go values used by git-stat\<close>

text \<open>
  A Go \<open>int\<close> is a 64-bit two's complement integer on the platforms the tool is built
  for: \<open>+\<close> wraps, and comparisons and \<open>%d\<close> read it signed.  A Go \<open>string\<close> is a
  byte sequence, which is exactly an Isabelle \<open>string\<close>: \<open>len\<close> is \<open>length\<close> and the
  slice \<open>text[:w]\<close> is \<open>take w text\<close>.
\<close>

type_synonym go_int = "64 word"

subsection \<open>Decimal formatting (\<open>%d\<close> and the zero-padded fields of \<open>Time.Format\<close>)\<close>

definition digitChar :: "nat \<Rightarrow> char" where
  "digitChar d = ''0123456789'' ! (d mod 10)"

fun digits :: "nat \<Rightarrow> string" where
  "digits n = (if n < 10 then [digitChar n] else digits (n div 10) @ [digitChar n])"

declare digits.simps [simp del]

text \<open>\<open>fmt.Sprintf("%d", n)\<close>: the signed decimal numeral of \<open>n\<close>.\<close>

definition itoa :: "int \<Rightarrow> string" where
  "itoa i = (if i < 0 then CHR ''-'' # digits (nat (- i)) else digits (nat i))"

definition Sprintf_d :: "go_int \<Rightarrow> string" where
  "Sprintf_d n = itoa (sint n)"

text \<open>
  The \<open>appendInt(b, x, width)\<close> of package \<open>time\<close>: a sign for a negative number, then
  the decimal digits, zero-padded on the left to \<open>width\<close>.
\<close>

definition appendInt :: "int \<Rightarrow> nat \<Rightarrow> string" where
  "appendInt x width =
     (let ds = digits (nat \<bar>x\<bar>);
          padded = replicate (width - length ds) CHR ''0'' @ ds
      in if x < 0 then CHR ''-'' # padded else padded)"

section \<open>The part of package \<open>time\<close> the tool calls\<close>

text \<open>
  A \<open>time.Time\<close> is an instant together with a location.  Every time the tool handles
  has whole seconds (a parsed date is a midnight, a commit time comes from git's
  second-granular signature) and a location with one fixed offset (UTC for a parsed
  date, the signature's own offset for a commit), so a time is the pair of its Unix
  seconds and the offset, in seconds east of UTC, of its location.
\<close>

record Time =
  unixSec :: int
  zoneOffset :: int

definition time_After :: "Time \<Rightarrow> Time \<Rightarrow> bool" where
  "time_After t u = (unixSec u < unixSec t)"

definition time_Before :: "Time \<Rightarrow> Time \<Rightarrow> bool" where
  "time_Before t u = (unixSec t < unixSec u)"

text \<open>\<open>t.Add(d)\<close>, the duration \<open>d\<close> given in seconds.\<close>

definition time_Add :: "Time \<Rightarrow> int \<Rightarrow> Time" where
  "time_Add t d = t\<lparr>unixSec := unixSec t + d\<rparr>"

text \<open>
  \<open>t.AddDate(0, 0, n)\<close>: the same wall clock \<open>n\<close> calendar days later, in the same
  location.  With a fixed offset that is the instant \<open>n\<close> times 86400 seconds later.
\<close>

definition time_AddDate_days :: "Time \<Rightarrow> int \<Rightarrow> Time" where
  "time_AddDate_days t n = t\<lparr>unixSec := unixSec t + n * 86400\<rparr>"

text \<open>
  The proleptic Gregorian calendar: the civil date (year, month, day) of a day number
  counted from 1970-01-01, and the day number of a civil date.
\<close>

definition civil_from_days :: "int \<Rightarrow> int \<times> int \<times> int" where
  "civil_from_days z0 =
     (let z = z0 + 719468;
          era = z div 146097;
          doe = z - era * 146097;
          yoe = (doe - doe div 1460 + doe div 36524 - doe div 146096) div 365;
          y = yoe + era * 400;
          doy = doe - (365 * yoe + yoe div 4 - yoe div 100);
          mp = (5 * doy + 2) div 153;
          d = doy - (153 * mp + 2) div 5 + 1;
          m = (if mp < 10 then mp + 3 else mp - 9)
      in (if m \<le> 2 then y + 1 else y, m, d))"

definition days_from_civil :: "int \<Rightarrow> int \<Rightarrow> int \<Rightarrow> int" where
  "days_from_civil y0 m d =
     (let y = (if m \<le> 2 then y0 - 1 else y0);
          era = y div 400;
          yoe = y - era * 400;
          doy = (153 * (if 2 < m then m - 3 else m + 9) + 2) div 5 + d - 1;
          doe = yoe * 365 + yoe div 4 - yoe div 100 + doy
      in era * 146097 + doe - 719468)"

text \<open>\<open>t.Date()\<close>: the civil date of \<open>t\<close> on the wall clock of its own location.\<close>

definition time_Date :: "Time \<Rightarrow> int \<times> int \<times> int" where
  "time_Date t = civil_from_days ((unixSec t + zoneOffset t) div 86400)"

definition time_Year :: "Time \<Rightarrow> int" where
  "time_Year t = fst (time_Date t)"

text \<open>\<open>t.Format("2006-01-02")\<close> and \<open>t.Format("01-02")\<close>.\<close>

definition time_Format_ymd :: "Time \<Rightarrow> string" where
  "time_Format_ymd t =
     (case time_Date t of (y, m, d) \<Rightarrow>
        appendInt y 4 @ ''-'' @ appendInt m 2 @ ''-'' @ appendInt d 2)"

definition time_Format_md :: "Time \<Rightarrow> string" where
  "time_Format_md t =
     (case time_Date t of (y, m, d) \<Rightarrow> appendInt m 2 @ ''-'' @ appendInt d 2)"


subsection \<open>Errors\<close>

text \<open>
  A Go \<open>error\<close> is either the \<open>*time.ParseError\<close> of a failed \<open>time.Parse\<close> (the value
  parsed, the layout element and the value element where parsing stopped, and a
  message) or an error of a collaborator (the file system, the repository), kept as the
  text it prints.
\<close>

datatype error = ParseError string string string string | OtherError string

definition lowerhex :: "nat \<Rightarrow> char" where
  "lowerhex n = ''0123456789abcdef'' ! (n mod 16)"

definition quoteByte :: "char \<Rightarrow> string" where
  "quoteByte c =
     (let n = (of_char c :: nat) in
      if 128 \<le> n \<or> n < 32 then [CHR 0x5C, CHR ''x'', lowerhex (n div 16), lowerhex n]
      else if c = CHR 0x22 \<or> c = CHR 0x5C then [CHR 0x5C, c]
      else [c])"

definition quote :: "string \<Rightarrow> string" where
  "quote s = [CHR 0x22] @ concat (map quoteByte s) @ [CHR 0x22]"

text \<open>\<open>err.Error()\<close>, what \<open>%v\<close> prints for an error.\<close>

fun error_Error :: "error \<Rightarrow> string" where
  "error_Error (ParseError v layoutElem valueElem msg) =
     (if msg = [] then
        ''parsing time '' @ quote v @ '' as '' @ quote ''2006-01-02'' @
        '': cannot parse '' @ quote valueElem @ '' as '' @ quote layoutElem
      else ''parsing time '' @ quote v @ msg)"
| "error_Error (OtherError msg) = msg"

subsection \<open>\<open>time.Parse\<close> with the layout \<open>2006-01-02\<close>\<close>

definition isDigit :: "string \<Rightarrow> nat \<Rightarrow> bool" where
  "isDigit s i = (i < length s \<and> 48 \<le> (of_char (s ! i) :: nat) \<and> (of_char (s ! i) :: nat) \<le> 57)"

definition digitVal :: "string \<Rightarrow> nat \<Rightarrow> int" where
  "digitVal s i = int (of_char (s ! i)) - 48"

definition isLeap :: "int \<Rightarrow> bool" where
  "isLeap year = (year mod 4 = 0 \<and> (year mod 100 \<noteq> 0 \<or> year mod 400 = 0))"

definition daysIn :: "int \<Rightarrow> int \<Rightarrow> int" where
  "daysIn month year =
     (if month = 2 then (if isLeap year then 29 else 28)
      else if month = 4 \<or> month = 6 \<or> month = 9 \<or> month = 11 then 30
      else 31)"

text \<open>
  The layout is the four-digit year, \<open>-\<close>, the two-digit month, \<open>-\<close>, the two-digit day,
  and nothing after it.  Parsing stops at the first element that does not match; the
  month is range-checked where it is read and the day once the whole value is read.
  The result is the midnight of that date in UTC.
\<close>

definition time_Parse_ymd :: "string \<Rightarrow> error + Time" where
  "time_Parse_ymd v =
     (if length v < 4 \<or> \<not> (isDigit v 0 \<and> isDigit v 1 \<and> isDigit v 2 \<and> isDigit v 3)
      then Inl (ParseError v ''2006'' v [])
      else
        let year = 1000 * digitVal v 0 + 100 * digitVal v 1 + 10 * digitVal v 2 + digitVal v 3;
            v1 = drop 4 v
        in if take 1 v1 \<noteq> ''-'' then Inl (ParseError v ''-'' v1 [])
        else
          let v2 = drop 1 v1
          in if \<not> (isDigit v2 0 \<and> isDigit v2 1) then Inl (ParseError v ''01'' v2 [])
          else
            let month = 10 * digitVal v2 0 + digitVal v2 1;
                v3 = drop 2 v2
            in if month \<le> 0 \<or> 12 < month
              then Inl (ParseError v ''01'' v3 '': month out of range'')
            else if take 1 v3 \<noteq> ''-'' then Inl (ParseError v ''-'' v3 [])
            else
              let v4 = drop 1 v3
              in if \<not> (isDigit v4 0 \<and> isDigit v4 1) then Inl (ParseError v ''02'' v4 [])
              else
                let day = 10 * digitVal v4 0 + digitVal v4 1;
                    v5 = drop 2 v4
                in if v5 \<noteq> [] then Inl (ParseError v [] v5 ('': extra text: '' @ quote v5))
                else if day < 1 \<or> daysIn month year < day
                  then Inl (ParseError v [] v5 '': day out of range'')
                else Inr \<lparr>unixSec = 86400 * days_from_civil year month day, zoneOffset = 0\<rparr>)"

section \<open>The data model of \<open>main.go\<close>\<close>

record DailyStats =
  FilesChanged :: "string set"
  Additions :: go_int
  Deletions :: go_int

definition colorReset :: string where
  "colorReset = [CHR 0x1B, CHR ''['', CHR ''0'', CHR ''m'']"

definition colorOrange :: string where
  "colorOrange = CHR 0x1B # ''[38;5;208m''"

definition colorCyan :: string where
  "colorCyan = CHR 0x1B # ''[36m''"

definition dateRangeWidth :: nat where "dateRangeWidth = 25"
definition filesChangedWidth :: nat where "filesChangedWidth = 15"
definition additionsWidth :: nat where "additionsWidth = 11"
definition deletionsWidth :: nat where "deletionsWidth = 11"
definition totalChangesWidth :: nat where "totalChangesWidth = 15"

subsection \<open>What the tool reads of go-git\<close>

text \<open>
  A commit carries the author's and the committer's signature, each with its own time,
  and \<open>c.Stats()\<close>, which either fails or gives one \<open>FileStat\<close> per file of the commit's
  diff.  The iterator that \<open>repo.Log\<close> returns is the sequence of what its \<open>Next\<close> gives:
  a commit, or an error that ends the iteration.  The repository and the file system
  are parameters of the program.
\<close>

record FileStat =
  Name :: string
  Addition :: go_int
  Deletion :: go_int

record Signature =
  When :: Time

record Commit =
  Author :: Signature
  Committer :: Signature
  Stats :: "error + FileStat list"

type_synonym CommitIter = "(error + Commit) list"

record Repository =
  repo_Log :: "Time \<Rightarrow> Time \<Rightarrow> error + CommitIter"

record World =
  git_PlainOpen :: "string \<Rightarrow> error + Repository"
  filepath_Abs :: "string \<Rightarrow> error + string"


section \<open>\<open>getGitStats\<close>\<close>

text \<open>
  One pass of the inner loop over a commit's file statistics.  The map holds pointers
  and the loop mutates the day's entry through its pointer; here the entry is passed
  along and stored back once.
\<close>

definition addFileStat :: "DailyStats \<Rightarrow> FileStat \<Rightarrow> DailyStats" where
  "addFileStat ds stat =
     ds\<lparr>FilesChanged := insert (Name stat) (FilesChanged ds),
        Additions := Additions ds + Addition stat,
        Deletions := Deletions ds + Deletion stat\<rparr>"

definition newDailyStats :: DailyStats where
  "newDailyStats = \<lparr>FilesChanged = {}, Additions = 0, Deletions = 0\<rparr>"

text \<open>The callback given to \<open>commits.ForEach\<close>, with the map it closes over made explicit.\<close>

definition forEachBody :: "(string \<rightharpoonup> DailyStats) \<Rightarrow> Commit \<Rightarrow> error + (string \<rightharpoonup> DailyStats)" where
  "forEachBody dailyStats c =
     (let commitDate = time_Format_ymd (When (Author c)) in
      (case Stats c of
        Inl err \<Rightarrow> Inl err
      | Inr stats \<Rightarrow>
          let entry = (case dailyStats commitDate of None \<Rightarrow> newDailyStats | Some ds \<Rightarrow> ds)
          in Inr (dailyStats(commitDate \<mapsto> foldl addFileStat entry stats))))"

text \<open>\<open>iter.ForEach(cb)\<close>: stops at the first error, the iterator's or the callback's.\<close>

fun commits_ForEach :: "CommitIter \<Rightarrow> ('s \<Rightarrow> Commit \<Rightarrow> error + 's) \<Rightarrow> 's \<Rightarrow> error + 's" where
  "commits_ForEach [] cb s = Inr s"
| "commits_ForEach (Inl err # rest) cb s = Inl err"
| "commits_ForEach (Inr c # rest) cb s =
     (case cb s c of Inl err \<Rightarrow> Inl err | Inr s' \<Rightarrow> commits_ForEach rest cb s')"

definition getGitStats :: "World \<Rightarrow> string \<Rightarrow> Time \<Rightarrow> Time \<Rightarrow> error + (string \<rightharpoonup> DailyStats)" where
  "getGitStats w repoPath startDate endDate =
     (case git_PlainOpen w repoPath of
        Inl err \<Rightarrow> Inl err
      | Inr repo \<Rightarrow>
          let endDate' = time_Add (time_Add endDate (24 * 3600)) (- 1) in
          (case repo_Log repo startDate endDate' of
            Inl err \<Rightarrow> Inl err
          | Inr commits \<Rightarrow> commits_ForEach commits forEachBody Map.empty))"

section \<open>Formatting and the table\<close>

definition parseDate :: "string \<Rightarrow> error + Time" where
  "parseDate dateStr = time_Parse_ymd dateStr"

definition formatDateRange :: "Time \<Rightarrow> Time \<Rightarrow> string" where
  "formatDateRange startDate endDate =
     (let startStr = time_Format_ymd startDate in
      if time_Year startDate = time_Year endDate
      then startStr @ '' ~ '' @ time_Format_md endDate
      else startStr @ '' ~ '' @ time_Format_ymd endDate)"

text \<open>
  \<open>centerText\<close> and \<open>padText\<close>.  The width is a non-negative constant at every call, so
  the slice \<open>text[:width]\<close> and the repeat counts are always in range.
\<close>

definition centerText :: "string \<Rightarrow> nat \<Rightarrow> string" where
  "centerText txt width =
     (if width \<le> length txt then take width txt
      else
        let leftPad = (width - length txt) div 2;
            rightPad = width - length txt - leftPad
        in replicate leftPad CHR '' '' @ txt @ replicate rightPad CHR '' '')"

definition padText :: "string \<Rightarrow> nat \<Rightarrow> string" where
  "padText txt width =
     (if width \<le> length txt then take width txt
      else txt @ replicate (width - length txt) CHR '' '')"

text \<open>
  Standard output is the list of the lines printed, each without its newline: every
  \<open>Printf\<close> and \<open>Println\<close> of the program prints exactly one line.
\<close>

definition totalWidth :: nat where
  "totalWidth = dateRangeWidth + filesChangedWidth + additionsWidth + deletionsWidth + totalChangesWidth + 4"

definition printTableHeader :: "string list" where
  "printTableHeader =
     [centerText ''Date Range'' dateRangeWidth @ ''|'' @
      centerText ''Files Changed'' filesChangedWidth @ ''|'' @
      centerText ''Additions'' additionsWidth @ ''|'' @
      centerText ''Deletions'' deletionsWidth @ ''|'' @
      centerText ''Total Changes'' totalChangesWidth,
      replicate totalWidth CHR ''-'']"

definition printTableRow :: "string \<Rightarrow> go_int \<Rightarrow> go_int \<Rightarrow> go_int \<Rightarrow> go_int \<Rightarrow> string list" where
  "printTableRow dateRange filesChanged additions deletions totalChanges =
     [padText dateRange dateRangeWidth @ ''|'' @
      centerText (Sprintf_d filesChanged) filesChangedWidth @ ''|'' @
      centerText (Sprintf_d additions) additionsWidth @ ''|'' @
      centerText (Sprintf_d deletions) deletionsWidth @ ''|'' @
      centerText (Sprintf_d totalChanges) totalChangesWidth,
      replicate totalWidth CHR ''-'']"

definition noChangeMessage :: "go_int \<Rightarrow> string" where
  "noChangeMessage days =
     (let days_tip = (if 1 <s days then ''days'' else ''day'')
      in Sprintf_d days @ '' '' @ days_tip @ '' no commits'')"

definition printNoChangeRow :: "string \<Rightarrow> go_int \<Rightarrow> string list" where
  "printNoChangeRow dateRange days =
     (let message = noChangeMessage days in
      [colorOrange @ replicate totalWidth CHR ''-'' @ colorReset,
       colorOrange @ padText dateRange dateRangeWidth @ colorReset @ ''|'' @
       colorOrange @ centerText message (totalWidth - dateRangeWidth - 1) @ colorReset,
       replicate totalWidth CHR ''-''])"

section \<open>The report loop of \<open>main\<close>\<close>

text \<open>
  The loop calls \<open>printTableRow\<close> for a day with an entry and \<open>printNoChangeRow\<close> for a
  closed run of days without one.  A row is one such call with the dates it is made
  for, before they are formatted: \<open>Active d stats\<close> is the call for day \<open>d\<close>, and
  \<open>Gap s e n\<close> the call with \<open>formatDateRange s e\<close> and the day count \<open>n\<close>.
\<close>

datatype Row = Active Time DailyStats | Gap Time Time go_int

text \<open>
  The loop, from the day \<open>d\<close> on, with the two variables it carries; the rows after the
  loop are those of the closing \<open>if\<close>.
\<close>

function reportLoop :: "(string \<rightharpoonup> DailyStats) \<Rightarrow> Time \<Rightarrow> Time \<Rightarrow> Time \<Rightarrow> go_int \<Rightarrow> Row list" where
  "reportLoop dailyStats endDate d noChangeStartDate noChangeDays =
     (if time_After d endDate then
        (if 0 <s noChangeDays then [Gap noChangeStartDate endDate noChangeDays] else [])
      else
        (case dailyStats (time_Format_ymd d) of
           None \<Rightarrow>
             reportLoop dailyStats endDate (time_AddDate_days d 1)
               (if noChangeDays = 0 then d else noChangeStartDate) (noChangeDays + 1)
         | Some stats \<Rightarrow>
             (if 0 <s noChangeDays
              then [Gap noChangeStartDate (time_AddDate_days d (- 1)) noChangeDays] else []) @
             Active d stats #
             reportLoop dailyStats endDate (time_AddDate_days d 1) noChangeStartDate
               (if 0 <s noChangeDays then 0 else noChangeDays)))"
  by pat_completeness auto
termination
  by (relation "measure (\<lambda>(dailyStats, endDate, d, s, n). nat (unixSec endDate - unixSec d + 1))")
     (auto simp: time_After_def time_AddDate_days_def)

declare reportLoop.simps [simp del]

text \<open>The zero values of \<open>var noChangeStartDate time.Time\<close> and \<open>var noChangeDays int\<close>.\<close>

definition zeroTime :: Time where
  "zeroTime = \<lparr>unixSec = - 62135596800, zoneOffset = 0\<rparr>"

definition reportRows :: "(string \<rightharpoonup> DailyStats) \<Rightarrow> Time \<Rightarrow> Time \<Rightarrow> Row list" where
  "reportRows dailyStats startDate endDate = reportLoop dailyStats endDate startDate zeroTime 0"

fun printRow :: "Row \<Rightarrow> string list" where
  "printRow (Gap s e n) = printNoChangeRow (formatDateRange s e) n"
| "printRow (Active d stats) =
     (let totalChanges = Additions stats + Deletions stats
      in printTableRow (time_Format_ymd d) (word_of_nat (card (FilesChanged stats)))
           (Additions stats) (Deletions stats) totalChanges)"

section \<open>\<open>main\<close>\<close>

text \<open>
  A run is the sequence of what the process does to the outside: the lines it prints,
  and its calls of the file system and of the repository; then its exit code.
\<close>

datatype event = Stdout string | CallFilepathAbs string | CallGetGitStats string

definition usage :: "event list" where
  "usage = [Stdout ''Usage: git-stat <repo_path> <start_date> <end_date>'',
            Stdout ''Example: git-stat /path/to/repo 2023-08-30 2023-09-01'']"

definition main :: "World \<Rightarrow> string list \<Rightarrow> event list \<times> int" where
  "main w args =
     (if length args \<noteq> 4 then (usage, 1)
      else
        let repoPath = args ! 1; startDateStr = args ! 2; endDateStr = args ! 3 in
        (case parseDate startDateStr of
          Inl err \<Rightarrow> ([Stdout (''Invalid start date format: '' @ error_Error err)], 1)
        | Inr startDate \<Rightarrow>
        (case parseDate endDateStr of
          Inl err \<Rightarrow> ([Stdout (''Invalid end date format: '' @ error_Error err)], 1)
        | Inr endDate \<Rightarrow>
        if time_Before endDate startDate then ([Stdout ''End date must be after start date''], 1)
        else
        (case filepath_Abs w repoPath of
          Inl err \<Rightarrow>
            ([CallFilepathAbs repoPath,
              Stdout (''Error resolving repository path: '' @ error_Error err)], 1)
        | Inr absPath \<Rightarrow>
        (case getGitStats w absPath startDate endDate of
          Inl err \<Rightarrow>
            ([CallFilepathAbs repoPath, CallGetGitStats absPath,
              Stdout (''Error getting Git statistics: '' @ error_Error err)], 1)
        | Inr dailyStats \<Rightarrow>
            ([CallFilepathAbs repoPath, CallGetGitStats absPath] @
             map Stdout (printTableHeader @
                         concat (map printRow (reportRows dailyStats startDate endDate))), 0))))))"



section \<open>Notions of the specification\<close>

text \<open>
  The cell the words ``left-padded'' describe: the padding stands on the left of the
  text, which ends the cell.
\<close>

definition leftPadded :: "string \<Rightarrow> nat \<Rightarrow> string" where
  "leftPadded txt width = replicate (width - length txt) CHR '' '' @ txt"

text \<open>
  The calendar day a commit is counted under, and what the commits that an iterator
  yields contribute to a day \<open>D\<close>: whether any of them falls on \<open>D\<close>, and the list of
  all per-file records of all commits of \<open>D\<close>, a record for each touch of a file.
\<close>

definition commitDay :: "Commit \<Rightarrow> string" where
  "commitDay c = time_Format_ymd (When (Author c))"

fun statsOfItem :: "string \<Rightarrow> error + Commit \<Rightarrow> FileStat list" where
  "statsOfItem D (Inl err) = []"
| "statsOfItem D (Inr c) =
     (if commitDay c = D then (case Stats c of Inl err \<Rightarrow> [] | Inr stats \<Rightarrow> stats) else [])"

definition fileStatsOn :: "string \<Rightarrow> CommitIter \<Rightarrow> FileStat list" where
  "fileStatsOn D commits = concat (map (statsOfItem D) commits)"

definition commitOn :: "string \<Rightarrow> CommitIter \<Rightarrow> bool" where
  "commitOn D commits =
     (\<exists>x \<in> set commits. case x of Inl err \<Rightarrow> False | Inr c \<Rightarrow> commitDay c = D)"

text \<open>An item the iteration gets past: a commit whose statistics can be computed.\<close>

definition itemOK :: "error + Commit \<Rightarrow> bool" where
  "itemOK x =
     (case x of Inl err \<Rightarrow> False
      | Inr c \<Rightarrow> (case Stats c of Inl err \<Rightarrow> False | Inr stats \<Rightarrow> True))"

text \<open>The entry of a day after the records \<open>stats\<close> are added to what the map held for it.\<close>

definition addStats :: "DailyStats option \<Rightarrow> FileStat list \<Rightarrow> DailyStats" where
  "addStats entry stats =
     foldl addFileStat (case entry of None \<Rightarrow> newDailyStats | Some ds \<Rightarrow> ds) stats"

subsection \<open>The report\<close>

text \<open>
  What \<open>parseDate\<close> returns for a date: a midnight in UTC of a year from 0 to 9999,
  which lies between these bounds.
\<close>

definition parsedDay :: "Time \<Rightarrow> bool" where
  "parsedDay t = (zoneOffset t = 0 \<and> unixSec t mod 86400 = 0 \<and>
                  - 86400000000 \<le> unixSec t \<and> unixSec t \<le> 259200000000)"

text \<open>A day has an entry when the index has one under the day's date.\<close>

definition hasEntry :: "(string \<rightharpoonup> DailyStats) \<Rightarrow> Time \<Rightarrow> bool" where
  "hasEntry dailyStats d = (dailyStats (time_Format_ymd d) \<noteq> None)"

text \<open>
  The first and the last day of a row, and the number of days it stands for: one for
  an active row, the count it prints for a gap.  \<open>daysFromTo s e\<close> is the whole days
  from \<open>s\<close> to \<open>e\<close>.
\<close>

fun isGap :: "Row \<Rightarrow> bool" where
  "isGap (Gap s e n) = True"
| "isGap (Active d stats) = False"

fun rowStart :: "Row \<Rightarrow> Time" where
  "rowStart (Active d stats) = d"
| "rowStart (Gap s e n) = s"

fun rowEnd :: "Row \<Rightarrow> Time" where
  "rowEnd (Active d stats) = d"
| "rowEnd (Gap s e n) = e"

fun rowDays :: "Row \<Rightarrow> int" where
  "rowDays (Active d stats) = 1"
| "rowDays (Gap s e n) = sint n"

definition daysFromTo :: "Time \<Rightarrow> Time \<Rightarrow> int" where
  "daysFromTo s e = (unixSec e - unixSec s) div 86400"

text \<open>
  Rows tile the days from \<open>d\<close> up to, and without, \<open>d'\<close> when the first row starts at
  \<open>d\<close>, every row stands for at least one day and ends as many days after its start
  as it stands for, less one, every next row starts on the day after the row before
  it ends, and the day after the last row is \<open>d'\<close>.
\<close>

fun tiles :: "Time \<Rightarrow> Row list \<Rightarrow> Time \<Rightarrow> bool" where
  "tiles d [] d' = (d = d')"
| "tiles d (row # rows) d' =
     (rowStart row = d \<and> 1 \<le> rowDays row \<and>
      rowEnd row = time_AddDate_days d (rowDays row - 1) \<and>
      tiles (time_AddDate_days (rowEnd row) 1) rows d')"

text \<open>
  A report of the days from \<open>d\<close> up to \<open>d'\<close> is right for an index when its rows tile
  these days, an active row stands on a day with an entry and shows that entry, a gap
  spans days without an entry only, and no gap is followed by another gap.
\<close>

fun reportOK :: "(string \<rightharpoonup> DailyStats) \<Rightarrow> Time \<Rightarrow> Row list \<Rightarrow> Time \<Rightarrow> bool" where
  "reportOK dailyStats d [] d' = (d = d')"
| "reportOK dailyStats d (Active x stats # rows) d' =
     (x = d \<and> dailyStats (time_Format_ymd d) = Some stats \<and>
      reportOK dailyStats (time_AddDate_days d 1) rows d')"
| "reportOK dailyStats d (Gap s e n # rows) d' =
     (s = d \<and> 1 \<le> sint n \<and> e = time_AddDate_days s (sint n - 1) \<and>
      (\<forall>j \<in> {0..<sint n}. \<not> hasEntry dailyStats (time_AddDate_days s j)) \<and>
      \<not> (case rows of [] \<Rightarrow> False | row # rest \<Rightarrow> isGap row) \<and>
      reportOK dailyStats (time_AddDate_days e 1) rows d')"

subsection \<open>What a terminal shows of a line\<close>

text \<open>
  A colour code starts with the escape character and ends with the letter \<open>m\<close>; a
  terminal shows none of it.  The visible text of a line is the line without its
  colour codes.  A plain text has no escape character and no column separator.
\<close>

fun stripEscapes :: "bool \<Rightarrow> string \<Rightarrow> string" where
  "stripEscapes inEscape [] = []"
| "stripEscapes False (c # cs) =
     (if c = CHR 0x1B then stripEscapes True cs else c # stripEscapes False cs)"
| "stripEscapes True (c # cs) =
     (if c = CHR ''m'' then stripEscapes False cs else stripEscapes True cs)"

definition visible :: "string \<Rightarrow> string" where
  "visible line = stripEscapes False line"

definition plainText :: "string \<Rightarrow> bool" where
  "plainText s = (\<forall>c \<in> set s. c \<noteq> CHR 0x1B \<and> c \<noteq> CHR ''|'')"

subsection \<open>Input that fails validation\<close>

text \<open>
  The arguments, the program name first, fail validation when they are not four, when
  the start date or the end date does not parse, or when the end date is strictly
  before the start date.  An event is a print when it is a line on standard output,
  neither a call of the file system nor one of the repository.
\<close>

definition invalidInput :: "string list \<Rightarrow> bool" where
  "invalidInput args =
     (length args \<noteq> 4 \<or>
      (case parseDate (args ! 2) of
         Inl err \<Rightarrow> True
       | Inr startDate \<Rightarrow>
           (case parseDate (args ! 3) of
              Inl err \<Rightarrow> True
            | Inr endDate \<Rightarrow> time_Before endDate startDate)))"

fun isStdout :: "event \<Rightarrow> bool" where
  "isStdout (Stdout line) = True"
| "isStdout (CallFilepathAbs path) = False"
| "isStdout (CallGetGitStats path) = False"

subsection \<open>Sample data\<close>

text \<open>
  \<open>mkTime y m d s off\<close> is \<open>s\<close> seconds after midnight of the civil date on a clock
  \<open>off\<close> seconds east of UTC.  A sample commit has its two signature times and its
  file statistics; a sample world has a repository at every path, whose log yields
  the given items.
\<close>

definition mkTime :: "int \<Rightarrow> int \<Rightarrow> int \<Rightarrow> int \<Rightarrow> int \<Rightarrow> Time" where
  "mkTime y m d secOfDay offset =
     \<lparr>unixSec = 86400 * days_from_civil y m d + secOfDay - offset, zoneOffset = offset\<rparr>"

definition mkCommit :: "Time \<Rightarrow> Time \<Rightarrow> FileStat list \<Rightarrow> Commit" where
  "mkCommit authored committed stats =
     \<lparr>Author = \<lparr>When = authored\<rparr>, Committer = \<lparr>When = committed\<rparr>, Stats = Inr stats\<rparr>"

definition worldOf :: "CommitIter \<Rightarrow> World" where
  "worldOf commits =
     \<lparr>git_PlainOpen = (\<lambda>p. Inr \<lparr>repo_Log = (\<lambda>since until. Inr commits)\<rparr>),
      filepath_Abs = (\<lambda>p. Inr p)\<rparr>"

text \<open>Two commits of 2023-05-05 that touch the same file, with +3/-1 and +5/-0.\<close>

definition scenario5 :: CommitIter where
  "scenario5 =
     [Inr (mkCommit (mkTime 2023 5 5 36000 0) (mkTime 2023 5 5 36000 0)
             [\<lparr>Name = ''a.go'', Addition = 3, Deletion = 1\<rparr>]),
      Inr (mkCommit (mkTime 2023 5 5 72000 0) (mkTime 2023 5 5 72000 0)
             [\<lparr>Name = ''a.go'', Addition = 5, Deletion = 0\<rparr>])]"

text \<open>A commit of 2023-08-30 (2 files, +10/-2) and one of 2023-09-01 (1 file, +1/-0).\<close>

definition twoCommits :: "Commit \<times> Commit" where
  "twoCommits =
     (mkCommit (mkTime 2023 8 30 36000 0) (mkTime 2023 8 30 36000 0)
        [\<lparr>Name = ''a.go'', Addition = 7, Deletion = 2\<rparr>,
         \<lparr>Name = ''b.go'', Addition = 3, Deletion = 0\<rparr>],
      mkCommit (mkTime 2023 9 1 36000 0) (mkTime 2023 9 1 36000 0)
        [\<lparr>Name = ''a.go'', Addition = 1, Deletion = 0\<rparr>])"

text \<open>
  A commit authored on 2023-01-01 at 23:30 on a clock five hours west of UTC, which is
  04:30 of 2023-01-02 in UTC, and committed on 2023-01-03 at 10:00 UTC.
\<close>

definition travellerCommit :: Commit where
  "travellerCommit =
     mkCommit (mkTime 2023 1 1 84600 (- 18000)) (mkTime 2023 1 3 36000 0)
       [\<lparr>Name = ''a.go'', Addition = 1, Deletion = 0\<rparr>]"

text \<open>The index of scenario 1: entries for 2023-08-30 and 2023-09-01 only.\<close>

definition scenario1_index :: "string \<rightharpoonup> DailyStats" where
  "scenario1_index =
     map_of [(''2023-08-30'', \<lparr>FilesChanged = {''a.go'', ''b.go''}, Additions = 10, Deletions = 2\<rparr>),
             (''2023-09-01'', \<lparr>FilesChanged = {''a.go''}, Additions = 1, Deletions = 0\<rparr>)]"


section \<open>Cells\<close>

lemma length_centerText: "length (centerText t w) = w"
  by (simp add: centerText_def Let_def)

lemma length_padText: "length (padText t w) = w"
  by (simp add: padText_def)

lemma centerText_truncates: "w \<le> length t \<Longrightarrow> centerText t w = take w t"
  by (simp add: centerText_def)

lemma padText_truncates: "w \<le> length t \<Longrightarrow> padText t w = take w t"
  by (simp add: padText_def)

lemma padText_pads: "length t < w \<Longrightarrow> padText t w = t @ replicate (w - length t) CHR '' ''"
  by (simp add: padText_def)

lemma centerText_centers:
  assumes "length t < w"
  shows "centerText t w =
         replicate ((w - length t) div 2) CHR '' '' @ t @
         replicate ((w - length t + 1) div 2) CHR '' ''"
proof -
  have half: "n - n div 2 = (n + 1) div 2" for n :: nat
    by arith
  from assms show ?thesis
    by (simp add: centerText_def Let_def half)
qed


section \<open>Aggregation\<close>

lemma foldl_addFileStat:
  "foldl addFileStat ds stats =
     \<lparr>FilesChanged = FilesChanged ds \<union> Name ` set stats,
      Additions = Additions ds + sum_list (map Addition stats),
      Deletions = Deletions ds + sum_list (map Deletion stats)\<rparr>"
  by (induction stats arbitrary: ds) (auto simp: addFileStat_def)

lemma addStats_append: "addStats (Some (addStats e xs)) ys = addStats e (xs @ ys)"
  by (simp add: addStats_def)

lemma forEachBody_Inr:
  "forEachBody m c = Inr m' \<longleftrightarrow>
     (\<exists>stats. Stats c = Inr stats \<and> m' = m(commitDay c \<mapsto> addStats (m (commitDay c)) stats))"
  by (auto simp: forEachBody_def commitDay_def addStats_def Let_def split: sum.splits)

lemma fileStatsOn_no_commit: "\<not> commitOn D commits \<Longrightarrow> fileStatsOn D commits = []"
proof (induction commits)
  case Nil
  then show ?case by (simp add: fileStatsOn_def)
next
  case (Cons x commits)
  then show ?case by (cases x) (auto simp: fileStatsOn_def commitOn_def)
qed

lemma ForEach_closed:
  "commits_ForEach commits forEachBody m = Inr idx \<Longrightarrow>
   idx D = (if commitOn D commits then Some (addStats (m D) (fileStatsOn D commits)) else m D)"
proof (induction commits arbitrary: m)
  case Nil
  then show ?case by (simp add: commitOn_def)
next
  case (Cons x commits)
  show ?case
  proof (cases x)
    case (Inl err)
    with Cons.prems show ?thesis by simp
  next
    case (Inr c)
    with Cons.prems obtain m' where m': "forEachBody m c = Inr m'"
      and rest: "commits_ForEach commits forEachBody m' = Inr idx"
      by (auto split: sum.splits)
    from m' obtain stats where st: "Stats c = Inr stats"
      and m'_eq: "m' = m(commitDay c \<mapsto> addStats (m (commitDay c)) stats)"
      by (auto simp: forEachBody_Inr)
    note IH = Cons.IH [OF rest]
    show ?thesis
    proof (cases "commitDay c = D")
      case True
      have here: "commitOn D (x # commits)"
        using True Inr by (simp add: commitOn_def)
      have stats_here: "fileStatsOn D (x # commits) = stats @ fileStatsOn D commits"
        using True Inr st by (simp add: fileStatsOn_def)
      have m'D: "m' D = Some (addStats (m D) stats)"
        using True m'_eq by simp
      show ?thesis
      proof (cases "commitOn D commits")
        case True
        then show ?thesis
          using IH here stats_here m'D by (simp add: addStats_append)
      next
        case False
        then show ?thesis
          using IH here stats_here m'D by (simp add: fileStatsOn_no_commit)
      qed
    next
      case False
      then show ?thesis
        using IH Inr st m'_eq
        by (simp add: commitOn_def fileStatsOn_def)
    qed
  qed
qed

lemma ForEach_succeeds_iff:
  "(\<exists>idx. commits_ForEach commits forEachBody m = Inr idx) \<longleftrightarrow> list_all itemOK commits"
proof (induction commits arbitrary: m)
  case Nil
  then show ?case by simp
next
  case (Cons x commits)
  show ?case
  proof (cases x)
    case (Inl err)
    then show ?thesis by (simp add: itemOK_def)
  next
    case (Inr c)
    show ?thesis
    proof (cases "Stats c")
      case (Inl err)
      then show ?thesis using Inr by (simp add: itemOK_def forEachBody_def)
    next
      case st: (Inr stats)
      then have "forEachBody m c = Inr (m(commitDay c \<mapsto> addStats (m (commitDay c)) stats))"
        by (simp add: forEachBody_Inr)
      then show ?thesis using Inr st Cons.IH by (simp add: itemOK_def)
    qed
  qed
qed

lemma mset_fileStatsOn:
  "mset (fileStatsOn D commits) = (\<Sum>x\<in>#mset commits. mset (statsOfItem D x))"
  by (induction commits) (simp_all add: fileStatsOn_def)

lemma commitOn_mset: "mset xs = mset ys \<Longrightarrow> commitOn D xs = commitOn D ys"
  by (auto simp: commitOn_def dest: mset_eq_setD)

lemma addStats_mset:
  assumes "mset xs = mset ys"
  shows "addStats e xs = addStats e ys"
proof -
  have "set xs = set ys" using assms by (rule mset_eq_setD)
  moreover have "sum_list (map f xs) = sum_list (map f ys)" for f :: "FileStat \<Rightarrow> go_int"
  proof -
    have "mset (map f xs) = mset (map f ys)" using assms by simp
    then show ?thesis by (metis sum_mset_sum_list)
  qed
  ultimately show ?thesis
    by (simp add: addStats_def foldl_addFileStat)
qed

lemma ForEach_permute:
  assumes "mset xs = mset ys" and "commits_ForEach xs forEachBody m = Inr idx"
  shows "commits_ForEach ys forEachBody m = Inr idx"
proof -
  from assms(2) have "list_all itemOK xs"
    using ForEach_succeeds_iff by blast
  moreover have "set xs = set ys" using assms(1) by (rule mset_eq_setD)
  ultimately have "list_all itemOK ys"
    by (simp add: list_all_iff)
  then obtain idx' where idx': "commits_ForEach ys forEachBody m = Inr idx'"
    using ForEach_succeeds_iff by blast
  have "idx' D = idx D" for D
  proof -
    have "mset (fileStatsOn D xs) = mset (fileStatsOn D ys)"
      by (simp add: mset_fileStatsOn assms(1))
    then have "addStats (m D) (fileStatsOn D xs) = addStats (m D) (fileStatsOn D ys)"
      by (rule addStats_mset)
    then show ?thesis
      using ForEach_closed [OF assms(2), of D] ForEach_closed [OF idx', of D]
        commitOn_mset [OF assms(1), of D]
      by simp
  qed
  then have "idx' = idx" by (rule ext)
  with idx' show ?thesis by simp
qed

lemma scenario5_day: "commitDay (mkCommit (mkTime 2023 5 5 s 0) c stats) = time_Format_ymd (mkTime 2023 5 5 s 0)"
  by (simp add: commitDay_def mkCommit_def)

lemma fmt1: "time_Format_ymd (mkTime 2023 5 5 36000 0) = ''2023-05-05''"
  "time_Format_ymd (mkTime 2023 5 5 72000 0) = ''2023-05-05''"
  by code_simp+

subsection \<open>The totals of a day (C1)\<close>

text \<open>
  C1.  When \<open>getGitStats\<close> succeeds on the commits its log query yields, then for every
  day \<open>D\<close> with a commit the entry of \<open>D\<close> has as additions the sum of the additions of
  every per-file record of every commit of \<open>D\<close>, as deletions the sum of their
  deletions, and as changed files the set of their paths, so that a path touched
  several times is in it once and its size is the number of distinct paths.  A day
  without a commit has no entry.  The sums are sums of Go \<open>int\<close>s.
\<close>

theorem day_totals:
  assumes "git_PlainOpen w repoPath = Inr repo"
    and "repo_Log repo startDate (time_Add (time_Add endDate (24 * 3600)) (- 1)) = Inr commits"
    and "getGitStats w repoPath startDate endDate = Inr dailyStats"
  shows "dailyStats D =
           (if commitOn D commits
            then Some \<lparr>FilesChanged = Name ` set (fileStatsOn D commits),
                       Additions = sum_list (map Addition (fileStatsOn D commits)),
                       Deletions = sum_list (map Deletion (fileStatsOn D commits))\<rparr>
            else None)
         \<and> card (Name ` set (fileStatsOn D commits)) =
             length (remdups (map Name (fileStatsOn D commits)))"
proof -
  from assms have "commits_ForEach commits forEachBody Map.empty = Inr dailyStats"
    by (simp add: getGitStats_def)
  from ForEach_closed [OF this, of D]
  have "dailyStats D =
           (if commitOn D commits
            then Some \<lparr>FilesChanged = Name ` set (fileStatsOn D commits),
                       Additions = sum_list (map Addition (fileStatsOn D commits)),
                       Deletions = sum_list (map Deletion (fileStatsOn D commits))\<rparr>
            else None)"
    by (simp add: addStats_def foldl_addFileStat newDailyStats_def)
  moreover have "card (Name ` set (fileStatsOn D commits)) =
             length (remdups (map Name (fileStatsOn D commits)))"
    by (metis List.card_set set_map)
  ultimately show ?thesis by simp
qed

text \<open>
  Scenario 5: the same file in two commits of the same day with +3/-1 and +5/-0 gives
  additions 8, deletions 1 and one changed file.
\<close>

theorem day_totals_witness:
  "\<exists>dailyStats.
     getGitStats (worldOf scenario5) ''/repo'' (mkTime 2023 5 5 0 0) (mkTime 2023 5 5 0 0) = Inr dailyStats \<and>
     dailyStats ''2023-05-05'' = Some \<lparr>FilesChanged = {''a.go''}, Additions = 8, Deletions = 1\<rparr> \<and>
     card {''a.go''} = (1 :: nat) \<and>
     dailyStats ''2023-05-04'' = None"
proof -
  define repo :: Repository where "repo = \<lparr>repo_Log = (\<lambda>since until. Inr scenario5)\<rparr>"
  have opened: "git_PlainOpen (worldOf scenario5) ''/repo'' = Inr repo"
    by (simp add: worldOf_def repo_def)
  have logged: "repo_Log repo (mkTime 2023 5 5 0 0)
      (time_Add (time_Add (mkTime 2023 5 5 0 0) (24 * 3600)) (- 1)) = Inr scenario5"
    by (simp add: repo_def)
  have "list_all itemOK scenario5"
    by (simp add: scenario5_def itemOK_def mkCommit_def)
  then obtain dailyStats where "commits_ForEach scenario5 forEachBody Map.empty = Inr dailyStats"
    using ForEach_succeeds_iff by blast
  then have run: "getGitStats (worldOf scenario5) ''/repo'' (mkTime 2023 5 5 0 0) (mkTime 2023 5 5 0 0)
      = Inr dailyStats"
    using opened logged by (simp add: getGitStats_def)
  have days: "commitOn ''2023-05-05'' scenario5" "\<not> commitOn ''2023-05-04'' scenario5"
    by (simp_all add: commitOn_def scenario5_def scenario5_day fmt1)
  have stats: "fileStatsOn ''2023-05-05'' scenario5 =
      [\<lparr>Name = ''a.go'', Addition = 3, Deletion = 1\<rparr>, \<lparr>Name = ''a.go'', Addition = 5, Deletion = 0\<rparr>]"
    by (simp add: fileStatsOn_def scenario5_def scenario5_day fmt1) (simp add: mkCommit_def)
  from day_totals [OF opened logged run, of "''2023-05-05''"]
       day_totals [OF opened logged run, of "''2023-05-04''"]
  have "dailyStats ''2023-05-05'' = Some \<lparr>FilesChanged = {''a.go''}, Additions = 8, Deletions = 1\<rparr>"
    and "dailyStats ''2023-05-04'' = None"
    by (simp_all add: days stats)
  with run show ?thesis by simp
qed

subsection \<open>The order of the commits (C9)\<close>

text \<open>
  C9.  Aggregation is a function of the commits, and it does not depend on their
  order: two runs whose log queries yield the same commits in any two orders succeed
  with the same index, or both fail.
\<close>

theorem aggregation_order_independent:
  assumes "git_PlainOpen w repoPath = Inr repo"
    and "repo_Log repo startDate (time_Add (time_Add endDate (24 * 3600)) (- 1)) = Inr commits"
    and "git_PlainOpen w' repoPath' = Inr repo'"
    and "repo_Log repo' startDate (time_Add (time_Add endDate (24 * 3600)) (- 1)) = Inr commits'"
    and "mset commits = mset commits'"
  shows "getGitStats w repoPath startDate endDate = Inr dailyStats \<longleftrightarrow>
         getGitStats w' repoPath' startDate endDate = Inr dailyStats"
proof -
  have "commits_ForEach commits forEachBody Map.empty = Inr dailyStats \<longleftrightarrow>
        commits_ForEach commits' forEachBody Map.empty = Inr dailyStats"
    using ForEach_permute [of commits commits'] ForEach_permute [of commits' commits] assms(5)
    by metis
  with assms(1-4) show ?thesis
    by (simp add: getGitStats_def)
qed

text \<open>The two commits of scenario 1, read in either order.\<close>

theorem aggregation_order_independent_witness:
  "mset [Inr (fst twoCommits), Inr (snd twoCommits)] = mset [Inr (snd twoCommits), Inr (fst twoCommits) :: error + Commit] \<and>
   (\<exists>dailyStats.
      getGitStats (worldOf [Inr (fst twoCommits), Inr (snd twoCommits)]) ''/repo''
        (mkTime 2023 8 30 0 0) (mkTime 2023 9 1 0 0) = Inr dailyStats \<and>
      getGitStats (worldOf [Inr (snd twoCommits), Inr (fst twoCommits)]) ''/repo''
        (mkTime 2023 8 30 0 0) (mkTime 2023 9 1 0 0) = Inr dailyStats)"
proof -
  let ?xs = "[Inr (fst twoCommits), Inr (snd twoCommits)] :: CommitIter"
  let ?ys = "[Inr (snd twoCommits), Inr (fst twoCommits)] :: CommitIter"
  let ?until = "time_Add (time_Add (mkTime 2023 9 1 0 0) (24 * 3600)) (- 1)"
  define repo :: Repository where "repo = \<lparr>repo_Log = (\<lambda>since until. Inr ?xs)\<rparr>"
  define repo' :: Repository where "repo' = \<lparr>repo_Log = (\<lambda>since until. Inr ?ys)\<rparr>"
  have perm: "mset ?xs = mset ?ys" by simp
  have opened: "git_PlainOpen (worldOf ?xs) ''/repo'' = Inr repo"
    "git_PlainOpen (worldOf ?ys) ''/repo'' = Inr repo'"
    by (simp_all add: worldOf_def repo_def repo'_def)
  have logged: "repo_Log repo (mkTime 2023 8 30 0 0) ?until = Inr ?xs"
    "repo_Log repo' (mkTime 2023 8 30 0 0) ?until = Inr ?ys"
    by (simp_all add: repo_def repo'_def)
  have "list_all itemOK ?xs"
    by (simp add: twoCommits_def itemOK_def mkCommit_def)
  then obtain dailyStats where "commits_ForEach ?xs forEachBody Map.empty = Inr dailyStats"
    using ForEach_succeeds_iff by blast
  then have run: "getGitStats (worldOf ?xs) ''/repo'' (mkTime 2023 8 30 0 0) (mkTime 2023 9 1 0 0)
      = Inr dailyStats"
    using opened(1) logged(1) by (simp add: getGitStats_def)
  with aggregation_order_independent [OF opened(1) logged(1) opened(2) logged(2) perm, of dailyStats]
  have "getGitStats (worldOf ?ys) ''/repo'' (mkTime 2023 8 30 0 0) (mkTime 2023 9 1 0 0)
      = Inr dailyStats"
    by simp
  with run perm show ?thesis by blast
qed

subsection \<open>The day of a commit (C6)\<close>

text \<open>
  C6.  A commit is counted under one key, the \<open>2006-01-02\<close> format of its author
  time; the committer time plays no part.  The date formatted is that of the author
  time on the clock of its own zone offset: the civil date of the day number of its
  seconds shifted by the offset.
\<close>

theorem commit_day_is_authors_local_day:
  "forEachBody m (c\<lparr>Committer := x\<rparr>) = forEachBody m c
   \<and> (forEachBody m c = Inr m' \<longrightarrow>
        dom m' = insert (time_Format_ymd (When (Author c))) (dom m) \<and>
        (\<forall>D. D \<noteq> time_Format_ymd (When (Author c)) \<longrightarrow> m' D = m D))
   \<and> time_Date (When (Author c)) =
        civil_from_days ((unixSec (When (Author c)) + zoneOffset (When (Author c))) div 86400)"
proof -
  have "forEachBody m (c\<lparr>Committer := x\<rparr>) = forEachBody m c"
    by (simp add: forEachBody_def)
  moreover have "dom m' = insert (time_Format_ymd (When (Author c))) (dom m) \<and>
        (\<forall>D. D \<noteq> time_Format_ymd (When (Author c)) \<longrightarrow> m' D = m D)"
    if "forEachBody m c = Inr m'"
    using that by (auto simp: forEachBody_Inr commitDay_def)
  ultimately show ?thesis
    by (simp add: time_Date_def)
qed

text \<open>
  The commit authored late on 2023-01-01, five hours west of UTC, is counted under
  2023-01-01, not under its UTC day 2023-01-02 and not under its commit day.
\<close>

theorem commit_day_is_authors_local_day_witness:
  "\<exists>m'. forEachBody Map.empty travellerCommit = Inr m' \<and>
         dom m' = {''2023-01-01''} \<and> m' ''2023-01-02'' = None \<and> m' ''2023-01-03'' = None \<and>
         time_Format_ymd ((When (Author travellerCommit))\<lparr>zoneOffset := 0\<rparr>) = ''2023-01-02'' \<and>
         time_Format_ymd (When (Committer travellerCommit)) = ''2023-01-03''"
proof -
  have day: "time_Format_ymd (When (Author travellerCommit)) = ''2023-01-01''"
    by code_simp
  have others: "time_Format_ymd ((When (Author travellerCommit))\<lparr>zoneOffset := 0\<rparr>) = ''2023-01-02''"
    "time_Format_ymd (When (Committer travellerCommit)) = ''2023-01-03''"
    by code_simp+
  obtain m' where m': "forEachBody Map.empty travellerCommit = Inr m'"
    by (simp add: forEachBody_def travellerCommit_def mkCommit_def)
  from commit_day_is_authors_local_day [where m = Map.empty and c = travellerCommit and m' = m'] m'
  have "dom m' = {''2023-01-01''}" and "m' ''2023-01-02'' = None" and "m' ''2023-01-03'' = None"
    by (simp_all add: day)
  with m' others show ?thesis by blast
qed


section \<open>The label of a gap (C5)\<close>

lemma Format_ymd_md:
  "time_Format_ymd t = appendInt (time_Year t) 4 @ ''-'' @ time_Format_md t"
  by (simp add: time_Format_ymd_def time_Format_md_def time_Year_def split: prod.splits)

text \<open>
  C5.  The label of a gap from \<open>startDate\<close> to \<open>endDate\<close> is the full date of the start,
  \<open> ~ \<close>, and the end: its month and day alone when both dates have the same year,
  its full date otherwise.  The month-day form is the full date without its year and
  the dash after it.  A gap of a single day \<open>d\<close> is printed through the same formatter,
  with \<open>d\<close> as start and as end.
\<close>

theorem gap_label:
  "formatDateRange startDate endDate =
     time_Format_ymd startDate @ '' ~ '' @
     (if time_Year startDate = time_Year endDate
      then time_Format_md endDate else time_Format_ymd endDate)
   \<and> time_Format_ymd endDate = appendInt (time_Year endDate) 4 @ ''-'' @ time_Format_md endDate
   \<and> printRow (Gap d d n) = printNoChangeRow (formatDateRange d d) n
   \<and> formatDateRange d d = time_Format_ymd d @ '' ~ '' @ time_Format_md d"
  by (simp add: formatDateRange_def Let_def Format_ymd_md)

text \<open>
  Scenario 2 has the label \<open>2023-01-01 ~ 01-03\<close>; a gap across the turn of the year
  shows both dates in full; a single day is a range from the day to itself.
\<close>

theorem gap_label_witness:
  "formatDateRange (mkTime 2023 1 1 0 0) (mkTime 2023 1 3 0 0) = ''2023-01-01 ~ 01-03''
   \<and> formatDateRange (mkTime 2023 12 30 0 0) (mkTime 2024 1 2 0 0) = ''2023-12-30 ~ 2024-01-02''
   \<and> formatDateRange (mkTime 2023 5 5 0 0) (mkTime 2023 5 5 0 0) = ''2023-05-05 ~ 05-05''
   \<and> time_Format_ymd (mkTime 2024 1 2 0 0) = ''2024'' @ ''-'' @ ''01-02''"
proof -
  have same: "time_Year (mkTime 2023 1 1 0 0) = time_Year (mkTime 2023 1 3 0 0)"
    and other: "time_Year (mkTime 2023 12 30 0 0) \<noteq> time_Year (mkTime 2024 1 2 0 0)"
    by code_simp+
  have parts: "time_Format_ymd (mkTime 2023 1 1 0 0) = ''2023-01-01''"
    "time_Format_md (mkTime 2023 1 3 0 0) = ''01-03''"
    "time_Format_ymd (mkTime 2023 12 30 0 0) = ''2023-12-30''"
    "time_Format_md (mkTime 2024 1 2 0 0) = ''01-02''"
    "appendInt (time_Year (mkTime 2024 1 2 0 0)) 4 = ''2024''"
    "time_Format_ymd (mkTime 2023 5 5 0 0) = ''2023-05-05''"
    "time_Format_md (mkTime 2023 5 5 0 0) = ''05-05''"
    by code_simp+
  note l1 = gap_label [of "mkTime 2023 1 1 0 0" "mkTime 2023 1 3 0 0" "mkTime 2023 5 5 0 0" 1]
  note l2 = gap_label [of "mkTime 2023 12 30 0 0" "mkTime 2024 1 2 0 0" "mkTime 2023 5 5 0 0" 1]
  have "formatDateRange (mkTime 2023 1 1 0 0) (mkTime 2023 1 3 0 0) = ''2023-01-01 ~ 01-03''"
    using l1 [THEN conjunct1] same by (simp add: parts)
  moreover have "formatDateRange (mkTime 2023 12 30 0 0) (mkTime 2024 1 2 0 0) = ''2023-12-30 ~ 2024-01-02''"
    and "time_Format_ymd (mkTime 2024 1 2 0 0) = ''2024'' @ ''-'' @ ''01-02''"
    using l2 [THEN conjunct1] l2 [THEN conjunct2, THEN conjunct1] other by (simp_all add: parts)
  moreover have "formatDateRange (mkTime 2023 5 5 0 0) (mkTime 2023 5 5 0 0) = ''2023-05-05 ~ 05-05''"
    using l1 [THEN conjunct2, THEN conjunct2, THEN conjunct2] by (simp add: parts)
  ultimately show ?thesis by simp
qed


section \<open>The report loop\<close>

subsection \<open>Small counters do not wrap\<close>

lemma sint_of_nat_small:
  assumes "int k < 2 ^ 63"
  shows "sint (of_nat k :: go_int) = int k"
proof -
  have "sint (of_nat k :: go_int) = signed_take_bit 63 (int k)"
    by transfer simp
  also have "\<dots> = int k"
    using assms by (simp add: signed_take_bit_int_eq_self)
  finally show ?thesis .
qed

lemma sless_of_nat_small:
  assumes "int k < 2 ^ 63"
  shows "(0 <s (of_nat k :: go_int)) \<longleftrightarrow> 0 < k"
  using sint_of_nat_small [OF assms] by (simp add: word_sless_alt)

lemma one_sless_of_nat_small:
  assumes "int k < 2 ^ 63"
  shows "(1 <s (of_nat k :: go_int)) \<longleftrightarrow> 1 < k"
  using sint_of_nat_small [OF assms] by (simp add: word_sless_alt)

lemma of_nat_eq_0_small:
  assumes "int k < 2 ^ 63"
  shows "(of_nat k :: go_int) = 0 \<longleftrightarrow> k = 0"
proof -
  have "sint (of_nat k :: go_int) = 0 \<longleftrightarrow> k = 0"
    using sint_of_nat_small [OF assms] by simp
  then show ?thesis by (metis sint_0 of_nat_0 signed_word_eqI)
qed

subsection \<open>Parsed dates\<close>

lemma days_from_civil_bounds:
  assumes "0 \<le> y" "y \<le> 9999" "1 \<le> m" "m \<le> 12" "1 \<le> d" "d \<le> 31"
  shows "- 1000000 \<le> days_from_civil y m d \<and> days_from_civil y m d \<le> 3000000"
proof -
  define y' where "y' = (if m \<le> 2 then y - 1 else y)"
  define era where "era = y' div 400"
  define yoe where "yoe = y' - era * 400"
  define doy where "doy = (153 * (if 2 < m then m - 3 else m + 9) + 2) div 5 + d - 1"
  have y': "- 1 \<le> y'" "y' \<le> 9999" using assms by (auto simp: y'_def)
  have era: "- 1 \<le> era" "era \<le> 24" using y' by (auto simp: era_def) 
  have yoe: "0 \<le> yoe" "yoe \<le> 399"
    unfolding yoe_def era_def by (simp_all add: minus_mult_div_eq_mod)
  have q: "0 \<le> yoe div 4" "yoe div 4 \<le> 99" "0 \<le> yoe div 100" "yoe div 100 \<le> 3"
    using yoe by auto
  have doy: "0 \<le> doy" "doy \<le> 400"
    using assms by (auto simp: doy_def)
  have "days_from_civil y m d = era * 146097 + (yoe * 365 + yoe div 4 - yoe div 100 + doy) - 719468"
    by (simp add: days_from_civil_def Let_def y'_def era_def yoe_def doy_def)
  then show ?thesis
    using era yoe q doy by linarith
qed

lemma digitVal_range: "isDigit s i \<Longrightarrow> 0 \<le> digitVal s i \<and> digitVal s i \<le> 9"
  by (auto simp: isDigit_def digitVal_def)

lemma daysIn_le: "daysIn m y \<le> 31"
  by (simp add: daysIn_def)

lemma parse_parsedDay:
  assumes "parseDate v = Inr t"
  shows "parsedDay t"
proof -
  define y where "y = 1000 * digitVal v 0 + 100 * digitVal v 1 + 10 * digitVal v 2 + digitVal v 3"
  define v2 where "v2 = drop 1 (drop 4 v)"
  define m where "m = 10 * digitVal v2 0 + digitVal v2 1"
  define v4 where "v4 = drop 1 (drop 2 v2)"
  define d where "d = 10 * digitVal v4 0 + digitVal v4 1"
  from assms have ok: "isDigit v 0" "isDigit v 1" "isDigit v 2" "isDigit v 3"
    "1 \<le> m" "m \<le> 12" "1 \<le> d" "d \<le> daysIn m y"
    and t: "t = \<lparr>unixSec = 86400 * days_from_civil y m d, zoneOffset = 0\<rparr>"
    unfolding parseDate_def time_Parse_ymd_def Let_def y_def m_def d_def v2_def v4_def
    by (simp_all split: if_splits)
  have "0 \<le> y" "y \<le> 9999"
    using ok(1-4) [THEN digitVal_range] by (simp_all add: y_def)
  moreover have "d \<le> 31"
    using ok(8) daysIn_le [of m y] by linarith
  ultimately have "- 1000000 \<le> days_from_civil y m d \<and> days_from_civil y m d \<le> 3000000"
    using ok(5-7) by (intro days_from_civil_bounds)
  with t show ?thesis
    by (simp add: parsedDay_def)
qed

lemma parse_samples:
  "parseDate ''2023-08-30'' = Inr (mkTime 2023 8 30 0 0)"
  "parseDate ''2023-09-01'' = Inr (mkTime 2023 9 1 0 0)"
  by code_simp+

subsection \<open>Adding days\<close>

lemma AddDate_AddDate [simp]:
  "time_AddDate_days (time_AddDate_days t a) b = time_AddDate_days t (a + b)"
  by (simp add: time_AddDate_days_def algebra_simps)

lemma AddDate_0 [simp]: "time_AddDate_days t 0 = t"
  by (simp add: time_AddDate_days_def)

lemma unixSec_AddDate [simp]: "unixSec (time_AddDate_days t a) = unixSec t + a * 86400"
  by (simp add: time_AddDate_days_def)

lemma zoneOffset_AddDate [simp]: "zoneOffset (time_AddDate_days t a) = zoneOffset t"
  by (simp add: time_AddDate_days_def)

lemma Time_eqI: "unixSec a = unixSec b \<Longrightarrow> zoneOffset a = zoneOffset b \<Longrightarrow> a = (b :: Time)"
  by simp

subsection \<open>The loop invariant\<close>

text \<open>
  With \<open>r\<close> days left up to the end date and an open gap of \<open>k\<close> days without entry
  that started at \<open>gs\<close>, the rows the loop still prints are a right report of the
  days from the start of the open gap.
\<close>

lemma reportLoop_OK:
  assumes "unixSec d + 86400 * int r = unixSec E + 86400"
    and "zoneOffset d = zoneOffset E"
    and "int k + int r < 2 ^ 63"
    and "0 < k \<Longrightarrow> gs = time_AddDate_days d (- int k)"
    and "\<forall>j \<in> {1..int k}. \<not> hasEntry idx (time_AddDate_days d (- j))"
  shows "reportOK idx (time_AddDate_days d (- int k)) (reportLoop idx E d gs (of_nat k))
           (time_AddDate_days E 1)"
  using assms
proof (induction r arbitrary: d gs k)
  case 0
  then have after: "time_After d E" and dE: "d = time_AddDate_days E 1"
    by (simp_all add: time_After_def Time_eqI)
  have small: "int k < 2 ^ 63" using "0.prems"(3) by simp
  show ?case
  proof (cases "k = 0")
    case True
    then have loop: "reportLoop idx E d gs (of_nat k) = []"
      using after by (simp add: reportLoop.simps [of idx E d])
    show ?thesis
      unfolding loop using True dE by simp
  next
    case False
    then have gs: "gs = time_AddDate_days d (- int k)" using "0.prems"(4) by simp
    have loop: "reportLoop idx E d gs (of_nat k) = [Gap gs E (of_nat k)]"
      using after False
      by (simp add: reportLoop.simps [of idx E d] sless_of_nat_small [OF small])
    have inactive: "\<forall>j \<in> {0..<int k}. \<not> hasEntry idx (time_AddDate_days gs j)"
    proof
      fix j assume "j \<in> {0..<int k}"
      then have "int k - j \<in> {1..int k}" by simp
      with "0.prems"(5) have "\<not> hasEntry idx (time_AddDate_days d (- (int k - j)))" by blast
      then show "\<not> hasEntry idx (time_AddDate_days gs j)"
        by (simp add: gs algebra_simps)
    qed
    have "E = time_AddDate_days gs (int k - 1)"
      using dE gs by (simp add: Time_eqI)
    then show ?thesis
      unfolding loop using False inactive dE gs
      by (simp add: sint_of_nat_small [OF small])
  qed
next
  case (Suc r)
  have small: "int k < 2 ^ 63" "int (Suc k) < 2 ^ 63" using Suc.prems(3) by simp_all
  have notafter: "\<not> time_After d E"
    using Suc.prems(1) by (simp add: time_After_def)
  let ?d' = "time_AddDate_days d 1"
  have step: "unixSec ?d' + 86400 * int r = unixSec E + 86400" "zoneOffset ?d' = zoneOffset E"
    using Suc.prems(1,2) by simp_all
  show ?case
  proof (cases "idx (time_Format_ymd d)")
    case None
    let ?gs' = "if (of_nat k :: go_int) = 0 then d else gs"
    have gs': "?gs' = time_AddDate_days ?d' (- int (Suc k))"
      using Suc.prems(4) by (cases "k = 0") (simp_all add: of_nat_eq_0_small [OF small(1)])
    have pending: "\<forall>j \<in> {1..int (Suc k)}. \<not> hasEntry idx (time_AddDate_days ?d' (- j))"
    proof
      fix j assume j: "j \<in> {1..int (Suc k)}"
      show "\<not> hasEntry idx (time_AddDate_days ?d' (- j))"
      proof (cases "j = 1")
        case True
        then show ?thesis using None by (simp add: hasEntry_def)
      next
        case False
        with j have "j - 1 \<in> {1..int k}" by simp
        with Suc.prems(5) have "\<not> hasEntry idx (time_AddDate_days d (- (j - 1)))" by blast
        then show ?thesis by (simp add: algebra_simps)
      qed
    qed
    have "reportOK idx (time_AddDate_days ?d' (- int (Suc k)))
            (reportLoop idx E ?d' ?gs' (of_nat (Suc k))) (time_AddDate_days E 1)"
      using step Suc.prems(3) gs' pending by (intro Suc.IH) simp_all
    moreover have "reportLoop idx E d gs (of_nat k) = reportLoop idx E ?d' ?gs' (of_nat (Suc k))"
      using notafter None by (simp add: reportLoop.simps [of idx E d] add.commute)
    ultimately show ?thesis by simp
  next
    case (Some stats)
    have rest: "reportOK idx ?d' (reportLoop idx E ?d' gs 0) (time_AddDate_days E 1)"
      using Suc.IH [of ?d' 0 gs] step Suc.prems(3) by simp
    show ?thesis
    proof (cases "k = 0")
      case True
      then have loop: "reportLoop idx E d gs (of_nat k) = Active d stats # reportLoop idx E ?d' gs 0"
        using notafter Some by (simp add: reportLoop.simps [of idx E d])
      show ?thesis
        unfolding loop using True Some rest by simp
    next
      case False
      then have gs: "gs = time_AddDate_days d (- int k)" using Suc.prems(4) by simp
      have inactive: "\<forall>j \<in> {0..<int k}. \<not> hasEntry idx (time_AddDate_days gs j)"
      proof
        fix j assume "j \<in> {0..<int k}"
        then have "int k - j \<in> {1..int k}" by simp
        with Suc.prems(5) have "\<not> hasEntry idx (time_AddDate_days d (- (int k - j)))" by blast
        then show "\<not> hasEntry idx (time_AddDate_days gs j)"
          by (simp add: gs algebra_simps)
      qed
      have loop: "reportLoop idx E d gs (of_nat k) =
          Gap gs (time_AddDate_days d (- 1)) (of_nat k) # Active d stats # reportLoop idx E ?d' gs 0"
        using notafter Some False
        by (simp add: reportLoop.simps [of idx E d] sless_of_nat_small [OF small(1)])
      show ?thesis
        unfolding loop using False inactive rest Some gs
        by (simp add: sint_of_nat_small [OF small(1)] Time_eqI)
    qed
  qed
qed

lemma reportRows_OK:
  assumes "parsedDay startDate" "parsedDay endDate" "\<not> time_Before endDate startDate"
  shows "reportOK idx startDate (reportRows idx startDate endDate) (time_AddDate_days endDate 1)"
proof -
  have le: "unixSec startDate \<le> unixSec endDate"
    using assms(3) by (simp add: time_Before_def)
  have "86400 dvd unixSec endDate - unixSec startDate"
    using assms(1,2) by (simp add: parsedDay_def dvd_diff mod_eq_0_iff_dvd)
  then obtain q where q: "unixSec endDate - unixSec startDate = 86400 * q" ..
  with le have q0: "0 \<le> q" by simp
  define r where "r = nat (q + 1)"
  have r: "86400 * int r = unixSec endDate - unixSec startDate + 86400"
    using q q0 by (simp add: r_def)
  have "86400 * q \<le> 259200000000 + 86400000000"
    using q assms(1,2) by (simp add: parsedDay_def)
  then have "q \<le> 4000000" by simp
  then have "int r < 2 ^ 63"
    using q0 by (simp add: r_def)
  then have "reportOK idx (time_AddDate_days startDate (- int 0))
      (reportLoop idx endDate startDate zeroTime (of_nat 0)) (time_AddDate_days endDate 1)"
    using r assms(1,2) by (intro reportLoop_OK [where r = r]) (simp_all add: parsedDay_def)
  then show ?thesis
    by (simp add: reportRows_def)
qed

lemma range_days:
  assumes "parsedDay startDate" "parsedDay endDate" "\<not> time_Before endDate startDate"
  shows "unixSec endDate = unixSec startDate + 86400 * daysFromTo startDate endDate"
    and "0 \<le> daysFromTo startDate endDate"
    and "zoneOffset endDate = zoneOffset startDate"
proof -
  have "86400 dvd unixSec endDate - unixSec startDate"
    using assms(1,2) by (simp add: parsedDay_def dvd_diff mod_eq_0_iff_dvd)
  then show "unixSec endDate = unixSec startDate + 86400 * daysFromTo startDate endDate"
    by (auto simp: daysFromTo_def)
  show "0 \<le> daysFromTo startDate endDate"
    using assms(3) by (simp add: daysFromTo_def time_Before_def)
  show "zoneOffset endDate = zoneOffset startDate"
    using assms(1,2) by (simp add: parsedDay_def)
qed

subsection \<open>What a right report implies\<close>

lemma reportOK_tiles: "reportOK idx d rows d' \<Longrightarrow> tiles d rows d'"
proof (induction rows arbitrary: d)
  case Nil
  then show ?case by simp
next
  case (Cons row rows)
  then show ?case by (cases row) simp_all
qed

lemma tiles_span:
  "tiles d rows d' \<Longrightarrow> unixSec d' = unixSec d + 86400 * sum_list (map rowDays rows)"
  by (induction rows arbitrary: d) (auto simp: algebra_simps)

lemma tiles_days_nonneg: "tiles d rows d' \<Longrightarrow> 0 \<le> sum_list (map rowDays rows)"
  by (induction rows arbitrary: d) auto

lemma tiles_le:
  assumes "tiles d rows d'"
  shows "unixSec d \<le> unixSec d'"
  using tiles_span [OF assms] tiles_days_nonneg [OF assms] by simp

lemma tiles_within:
  "tiles d rows d' \<Longrightarrow> row \<in> set rows \<Longrightarrow>
   unixSec d \<le> unixSec (rowStart row) \<and> unixSec (rowStart row) \<le> unixSec (rowEnd row) \<and>
   unixSec (rowEnd row) + 86400 \<le> unixSec d'"
proof (induction rows arbitrary: d)
  case Nil
  then show ?case by simp
next
  case (Cons r rows)
  from Cons.prems(1) [unfolded tiles.simps]
  have rest: "tiles (time_AddDate_days (rowEnd r) 1) rows d'"
    and here: "rowStart r = d" "1 \<le> rowDays r" "rowEnd r = time_AddDate_days d (rowDays r - 1)"
    by blast+
  have next_le: "unixSec (rowEnd r) + 86400 \<le> unixSec d'"
    using tiles_le [OF rest] by simp
  show ?case
  proof (cases "row = r")
    case True
    then show ?thesis using here next_le by simp
  next
    case False
    with Cons.prems(2) have "row \<in> set rows" by simp
    from Cons.IH [OF rest this] here show ?thesis by simp
  qed
qed

lemma tiles_sorted:
  "tiles d rows d' \<Longrightarrow> sorted_wrt (\<lambda>r r'. time_Before (rowEnd r) (rowStart r')) rows"
proof (induction rows arbitrary: d)
  case Nil
  then show ?case by simp
next
  case (Cons r rows)
  from Cons.prems [unfolded tiles.simps]
  have rest: "tiles (time_AddDate_days (rowEnd r) 1) rows d'" by blast
  have "time_Before (rowEnd r) (rowStart r')" if "r' \<in> set rows" for r'
    using tiles_within [OF rest that] by (simp add: time_Before_def)
  with Cons.IH [OF rest] show ?case by simp
qed

lemma tiles_aligned:
  "tiles d rows d' \<Longrightarrow> row \<in> set rows \<Longrightarrow> \<exists>j\<ge>0. rowStart row = time_AddDate_days d j"
proof (induction rows arbitrary: d)
  case Nil
  then show ?case by simp
next
  case (Cons r rows)
  from Cons.prems(1) [unfolded tiles.simps]
  have rest: "tiles (time_AddDate_days (rowEnd r) 1) rows d'"
    and here: "rowStart r = d" "1 \<le> rowDays r" "rowEnd r = time_AddDate_days d (rowDays r - 1)"
    by blast+
  show ?case
  proof (cases "row = r")
    case True
    then have "rowStart row = time_AddDate_days d 0" using here by simp
    then show ?thesis by blast
  next
    case False
    with Cons.prems(2) have "row \<in> set rows" by simp
    from Cons.IH [OF rest this] obtain j where "0 \<le> j"
      and "rowStart row = time_AddDate_days (time_AddDate_days (rowEnd r) 1) j" by blast
    then have "0 \<le> rowDays r + j" "rowStart row = time_AddDate_days d (rowDays r + j)"
      using here by (simp_all add: algebra_simps)
    then show ?thesis by blast
  qed
qed

lemma reportOK_GapD:
  assumes "reportOK idx d (Gap s e n # rows) d'"
  shows "s = d" and "1 \<le> sint n" and "e = time_AddDate_days s (sint n - 1)"
    and "\<forall>j \<in> {0..<sint n}. \<not> hasEntry idx (time_AddDate_days s j)"
    and "\<not> (case rows of [] \<Rightarrow> False | row # rest \<Rightarrow> isGap row)"
    and "reportOK idx (time_AddDate_days e 1) rows d'"
  using assms unfolding reportOK.simps by blast+

lemma reportOK_ActiveD:
  assumes "reportOK idx d (Active x stats # rows) d'"
  shows "x = d" and "idx (time_Format_ymd d) = Some stats"
    and "reportOK idx (time_AddDate_days d 1) rows d'"
  using assms unfolding reportOK.simps by blast+

lemma reportOK_gap:
  "reportOK idx d rows d' \<Longrightarrow> Gap s e n \<in> set rows \<Longrightarrow>
   1 \<le> sint n \<and> e = time_AddDate_days s (sint n - 1) \<and>
   (\<forall>j \<in> {0..<sint n}. \<not> hasEntry idx (time_AddDate_days s j))"
proof (induction rows arbitrary: d)
  case Nil
  then show ?case by simp
next
  case (Cons row rows)
  show ?case
  proof (cases row)
    case (Active x stats)
    with Cons.prems have "reportOK idx (time_AddDate_days d 1) rows d'" "Gap s e n \<in> set rows"
      by simp_all
    then show ?thesis by (rule Cons.IH)
  next
    case (Gap s0 e0 n0)
    show ?thesis
    proof (cases "Gap s e n = row")
      case True
      with Cons.prems(1) have "reportOK idx d (Gap s e n # rows) d'" by (simp only:)
      from reportOK_GapD(2-4) [OF this] show ?thesis by blast
    next
      case False
      from Cons.prems(1) have "reportOK idx d (Gap s0 e0 n0 # rows) d'" unfolding Gap .
      then have "reportOK idx (time_AddDate_days e0 1) rows d'" by (rule reportOK_GapD)
      moreover from False Gap Cons.prems(2) have "Gap s e n \<in> set rows" by auto
      ultimately show ?thesis by (rule Cons.IH)
    qed
  qed
qed

lemma reportOK_active:
  "reportOK idx d rows d' \<Longrightarrow> Active x stats \<in> set rows \<Longrightarrow>
   idx (time_Format_ymd x) = Some stats"
proof (induction rows arbitrary: d)
  case Nil
  then show ?case by simp
next
  case (Cons row rows)
  show ?case
  proof (cases row)
    case (Active x0 stats0)
    show ?thesis
    proof (cases "Active x stats = row")
      case True
      with Active Cons.prems(1) show ?thesis by auto
    next
      case False
      with Active Cons.prems have "reportOK idx (time_AddDate_days d 1) rows d'"
        "Active x stats \<in> set rows" by auto
      then show ?thesis by (rule Cons.IH)
    qed
  next
    case (Gap s0 e0 n0)
    from Cons.prems(1) have "reportOK idx d (Gap s0 e0 n0 # rows) d'" unfolding Gap .
    then have "reportOK idx (time_AddDate_days e0 1) rows d'" by (rule reportOK_GapD)
    moreover from Gap Cons.prems(2) have "Active x stats \<in> set rows" by auto
    ultimately show ?thesis by (rule Cons.IH)
  qed
qed

lemma reportOK_gap_right:
  "reportOK idx d rows d' \<Longrightarrow> Gap s e n \<in> set rows \<Longrightarrow>
   time_AddDate_days e 1 = d' \<or> hasEntry idx (time_AddDate_days e 1)"
proof (induction rows arbitrary: d)
  case Nil
  then show ?case by simp
next
  case (Cons row rows)
  show ?case
  proof (cases row)
    case (Active x stats)
    with Cons.prems have "reportOK idx (time_AddDate_days d 1) rows d'" "Gap s e n \<in> set rows"
      by simp_all
    then show ?thesis by (rule Cons.IH)
  next
    case (Gap s0 e0 n0)
    from Cons.prems(1) have "reportOK idx d (Gap s0 e0 n0 # rows) d'" unfolding Gap .
    note ok = reportOK_GapD [OF this]
    note rest = ok(6) and nogap = ok(5)
    show ?thesis
    proof (cases "Gap s e n = row")
      case True
      then have e: "e0 = e" using Gap by simp
      show ?thesis
      proof (cases rows)
        case Nil
        with rest e show ?thesis by simp
      next
        case (Cons r rest')
        with nogap obtain x stats where "r = Active x stats" by (cases r) simp_all
        with rest Cons e show ?thesis by (simp add: hasEntry_def)
      qed
    next
      case False
      with Gap Cons.prems(2) have "Gap s e n \<in> set rows" by auto
      with rest show ?thesis by (rule Cons.IH)
    qed
  qed
qed

lemma reportOK_gap_left:
  "reportOK idx d rows d' \<Longrightarrow> Gap s e n \<in> set rows \<Longrightarrow>
   s = d \<or> hasEntry idx (time_AddDate_days s (- 1))"
proof (induction rows arbitrary: d)
  case Nil
  then show ?case by simp
next
  case (Cons row rows)
  show ?case
  proof (cases row)
    case (Active x stats)
    with Cons.prems have rest: "reportOK idx (time_AddDate_days d 1) rows d'"
      and mem: "Gap s e n \<in> set rows" and entry: "idx (time_Format_ymd d) = Some stats"
      by simp_all
    from Cons.IH [OF rest mem] entry show ?thesis
      by (auto simp: hasEntry_def)
  next
    case (Gap s0 e0 n0)
    from Cons.prems(1) have "reportOK idx d (Gap s0 e0 n0 # rows) d'" unfolding Gap .
    note ok = reportOK_GapD [OF this]
    note rest = ok(6) and nogap = ok(5) and s0 = ok(1)
    show ?thesis
    proof (cases "Gap s e n = row")
      case True
      with Gap s0 show ?thesis by simp
    next
      case False
      with Gap Cons.prems(2) have mem: "Gap s e n \<in> set rows" by auto
      then obtain r rest' where rows: "rows = r # rest'" by (cases rows) auto
      with nogap obtain x stats where r: "r = Active x stats" by (cases r) simp_all
      from rest rows r have x: "x = time_AddDate_days e0 1"
        and entry: "idx (time_Format_ymd x) = Some stats"
        and rest': "reportOK idx (time_AddDate_days x 1) rest' d'"
        by simp_all
      from mem rows r have mem': "Gap s e n \<in> set rest'" by simp
      from tiles_within [OF reportOK_tiles [OF rest'] mem']
      have "unixSec x < unixSec s" by simp
      then have "s \<noteq> time_AddDate_days e0 1" using x by auto
      with Cons.IH [OF rest mem] show ?thesis by simp
    qed
  qed
qed

lemma reportOK_covers:
  "reportOK idx d rows d' \<Longrightarrow> 0 \<le> j \<Longrightarrow> unixSec d + 86400 * j < unixSec d' \<Longrightarrow>
   \<not> hasEntry idx (time_AddDate_days d j) \<Longrightarrow>
   \<exists>s e n. Gap s e n \<in> set rows \<and> unixSec s \<le> unixSec d + 86400 * j \<and>
           unixSec d + 86400 * j \<le> unixSec e"
proof (induction rows arbitrary: d j)
  case Nil
  then show ?case by simp
next
  case (Cons row rows)
  show ?case
  proof (cases row)
    case (Active x stats)
    from Cons.prems(1) have "reportOK idx d (Active x stats # rows) d'" unfolding Active .
    note ok = reportOK_ActiveD [OF this]
    have "j \<noteq> 0" using ok(2) Cons.prems(4) by (auto simp: hasEntry_def)
    with Cons.prems(2) have j: "0 \<le> j - 1" by simp
    have "\<exists>s e n. Gap s e n \<in> set rows \<and>
        unixSec s \<le> unixSec (time_AddDate_days d 1) + 86400 * (j - 1) \<and>
        unixSec (time_AddDate_days d 1) + 86400 * (j - 1) \<le> unixSec e"
      using ok(3) j Cons.prems(3,4) by (intro Cons.IH) simp_all
    then show ?thesis by (auto simp: algebra_simps)
  next
    case (Gap s0 e0 n0)
    from Cons.prems(1) have "reportOK idx d (Gap s0 e0 n0 # rows) d'" unfolding Gap .
    note ok = reportOK_GapD [OF this]
    show ?thesis
    proof (cases "j < sint n0")
      case True
      then have "unixSec s0 \<le> unixSec d + 86400 * j \<and> unixSec d + 86400 * j \<le> unixSec e0"
        using ok(1,3) Cons.prems(2) by simp
      then show ?thesis using Gap by auto
    next
      case False
      then have j: "0 \<le> j - sint n0" by simp
      have next_day: "time_AddDate_days e0 1 = time_AddDate_days d (sint n0)"
        using ok(1,3) by simp
      have "\<exists>s e n. Gap s e n \<in> set rows \<and>
          unixSec s \<le> unixSec (time_AddDate_days e0 1) + 86400 * (j - sint n0) \<and>
          unixSec (time_AddDate_days e0 1) + 86400 * (j - sint n0) \<le> unixSec e"
        using ok(6) j Cons.prems(3,4) unfolding next_day by (intro Cons.IH) simp_all
      then show ?thesis unfolding next_day by (auto simp: algebra_simps)
    qed
  qed
qed

lemma sorted_wrt_cases:
  "sorted_wrt P xs \<Longrightarrow> x \<in> set xs \<Longrightarrow> y \<in> set xs \<Longrightarrow> x = y \<or> P x y \<or> P y x"
  by (induction xs) auto

subsection \<open>Ranges without commits and with commits on every day\<close>

lemma all_inactive_one_gap:
  assumes "parsedDay startDate" "parsedDay endDate" "\<not> time_Before endDate startDate"
    and "\<forall>j \<in> {0..daysFromTo startDate endDate}. \<not> hasEntry idx (time_AddDate_days startDate j)"
  shows "reportRows idx startDate endDate =
           [Gap startDate endDate (word_of_int (daysFromTo startDate endDate + 1))]"
proof -
  let ?N = "daysFromTo startDate endDate"
  let ?rows = "reportRows idx startDate endDate"
  note ok = reportRows_OK [OF assms(1-3), of idx]
  note days = range_days [OF assms(1-3)]
  have first: "\<not> hasEntry idx startDate"
    using assms(4) days(2) by force
  show ?thesis
  proof (cases ?rows)
    case Nil
    with ok have "startDate = time_AddDate_days endDate 1" by simp
    then have "unixSec startDate = unixSec endDate + 86400" by simp
    with assms(3) show ?thesis by (simp add: time_Before_def)
  next
    case (Cons row rest)
    show ?thesis
    proof (cases row)
      case (Active x stats)
      from ok have "reportOK idx startDate (Active x stats # rest) (time_AddDate_days endDate 1)"
        unfolding Cons Active .
      from reportOK_ActiveD(2) [OF this] first show ?thesis
        by (simp add: hasEntry_def)
    next
      case (Gap s e n)
      from ok have "reportOK idx startDate (Gap s e n # rest) (time_AddDate_days endDate 1)"
        unfolding Cons Gap .
      note g = reportOK_GapD [OF this]
      have rest_empty: "rest = []"
      proof (rule ccontr)
        assume "rest \<noteq> []"
        then obtain r rest' where rest: "rest = r # rest'" by (cases rest) auto
        with g(5) obtain x stats where r: "r = Active x stats" by (cases r) simp_all
        from g(6) have a: "reportOK idx (time_AddDate_days e 1) (Active x stats # rest') (time_AddDate_days endDate 1)"
          unfolding rest r .
        note act = reportOK_ActiveD [OF a]
        have x: "x = time_AddDate_days startDate (sint n)"
          using act(1) g(1,3) by simp
        have "unixSec (rowEnd r) + 86400 \<le> unixSec (time_AddDate_days endDate 1)"
          using tiles_within [OF reportOK_tiles [OF g(6)], of r] rest by simp
        then have "sint n \<le> ?N"
          using x r days(1) by simp
        with g(2) assms(4) have "\<not> hasEntry idx (time_AddDate_days startDate (sint n))"
          by simp
        with act(2) x act(1) show False by (simp add: hasEntry_def)
      qed
      with g(6) have e1: "time_AddDate_days e 1 = time_AddDate_days endDate 1" by simp
      then have "unixSec (time_AddDate_days e 1) = unixSec (time_AddDate_days endDate 1)"
        and "zoneOffset (time_AddDate_days e 1) = zoneOffset (time_AddDate_days endDate 1)"
        by (simp_all only:)
      then have "unixSec e = unixSec endDate" "zoneOffset e = zoneOffset endDate"
        by simp_all
      then have e: "e = endDate" by simp
      have "unixSec e = unixSec startDate + 86400 * (sint n - 1)"
        using g(1,3) by simp
      with e days(1) have "sint n = ?N + 1" by simp
      then have "n = word_of_int (?N + 1)" by (metis of_int_sint scast_id)
      with Cons Gap rest_empty g(1) e show ?thesis by simp
    qed
  qed
qed

lemma all_active_no_gap:
  assumes "parsedDay startDate" "parsedDay endDate" "\<not> time_Before endDate startDate"
    and "\<forall>j \<in> {0..daysFromTo startDate endDate}. hasEntry idx (time_AddDate_days startDate j)"
    and "row \<in> set (reportRows idx startDate endDate)"
  shows "\<not> isGap row"
proof
  assume "isGap row"
  then obtain s e n where row: "row = Gap s e n" by (cases row) simp_all
  note ok = reportRows_OK [OF assms(1-3), of idx]
  note days = range_days [OF assms(1-3)]
  from reportOK_gap [OF ok] assms(5) row have "1 \<le> sint n"
    and "\<forall>j \<in> {0..<sint n}. \<not> hasEntry idx (time_AddDate_days s j)" by blast+
  then have inactive: "\<not> hasEntry idx s" by force
  from tiles_aligned [OF reportOK_tiles [OF ok] assms(5)] row
  obtain j where j: "0 \<le> j" "s = time_AddDate_days startDate j" by auto
  from tiles_within [OF reportOK_tiles [OF ok] assms(5)] row
  have "unixSec s \<le> unixSec endDate" by simp
  with j days(1) have "j \<le> daysFromTo startDate endDate" by simp
  with j assms(4) have "hasEntry idx s" by simp
  with inactive show False by simp
qed

subsection \<open>The rows of scenario 1\<close>

lemma scenario1_rows:
  "reportRows scenario1_index (mkTime 2023 8 30 0 0) (mkTime 2023 9 1 0 0) =
     [Active (mkTime 2023 8 30 0 0) \<lparr>FilesChanged = {''a.go'', ''b.go''}, Additions = 10, Deletions = 2\<rparr>,
      Gap (mkTime 2023 8 31 0 0) (mkTime 2023 8 31 0 0) 1,
      Active (mkTime 2023 9 1 0 0) \<lparr>FilesChanged = {''a.go''}, Additions = 1, Deletions = 0\<rparr>]"
  by code_simp


section \<open>The rows partition the range (C2)\<close>

text \<open>
  C2.  For a start date and an end date as \<open>parseDate\<close> returns them, the end not
  before the start, and any index: the day counts of the rows, one for an active row
  and its printed count for a gap, add up to the days from start to end plus one; the
  rows tile the range, the first starting on the start date, each next one on the day
  after the one before it ends, the last ending on the end date; so they are in
  strictly ascending order without overlap, and none reaches outside the range.
\<close>

theorem report_partitions_range:
  assumes "parseDate a = Inr startDate" and "parseDate b = Inr endDate"
    and "\<not> time_Before endDate startDate"
  shows "sum_list (map rowDays (reportRows dailyStats startDate endDate)) =
           daysFromTo startDate endDate + 1
       \<and> tiles startDate (reportRows dailyStats startDate endDate) (time_AddDate_days endDate 1)
       \<and> sorted_wrt (\<lambda>r r'. time_Before (rowEnd r) (rowStart r'))
            (reportRows dailyStats startDate endDate)
       \<and> (\<forall>row \<in> set (reportRows dailyStats startDate endDate).
            \<not> time_Before (rowStart row) startDate \<and>
            \<not> time_Before (rowEnd row) (rowStart row) \<and>
            \<not> time_After (rowEnd row) endDate)"
proof -
  let ?rows = "reportRows dailyStats startDate endDate"
  have days: "parsedDay startDate" "parsedDay endDate"
    using assms(1,2) by (simp_all add: parse_parsedDay)
  have t: "tiles startDate ?rows (time_AddDate_days endDate 1)"
    using reportRows_OK [OF days assms(3)] by (rule reportOK_tiles)
  have "unixSec endDate - unixSec startDate = 86400 * (sum_list (map rowDays ?rows) - 1)"
    using tiles_span [OF t] by simp
  then have total: "sum_list (map rowDays ?rows) = daysFromTo startDate endDate + 1"
    by (simp add: daysFromTo_def)
  have within: "\<not> time_Before (rowStart row) startDate \<and>
            \<not> time_Before (rowEnd row) (rowStart row) \<and>
            \<not> time_After (rowEnd row) endDate" if "row \<in> set ?rows" for row
  proof -
    from tiles_within [OF t that] show ?thesis
      by (simp add: time_Before_def time_After_def)
  qed
  from total t tiles_sorted [OF t] within show ?thesis by blast
qed

text \<open>Scenario 1: an active day, a gap of one day, an active day; three days in all.\<close>

theorem report_partitions_range_witness:
  "parseDate ''2023-08-30'' = Inr (mkTime 2023 8 30 0 0)
   \<and> parseDate ''2023-09-01'' = Inr (mkTime 2023 9 1 0 0)
   \<and> \<not> time_Before (mkTime 2023 9 1 0 0) (mkTime 2023 8 30 0 0)
   \<and> reportRows scenario1_index (mkTime 2023 8 30 0 0) (mkTime 2023 9 1 0 0) =
     [Active (mkTime 2023 8 30 0 0) \<lparr>FilesChanged = {''a.go'', ''b.go''}, Additions = 10, Deletions = 2\<rparr>,
      Gap (mkTime 2023 8 31 0 0) (mkTime 2023 8 31 0 0) 1,
      Active (mkTime 2023 9 1 0 0) \<lparr>FilesChanged = {''a.go''}, Additions = 1, Deletions = 0\<rparr>]
   \<and> sum_list (map rowDays
         (reportRows scenario1_index (mkTime 2023 8 30 0 0) (mkTime 2023 9 1 0 0))) = 3
   \<and> tiles (mkTime 2023 8 30 0 0)
         (reportRows scenario1_index (mkTime 2023 8 30 0 0) (mkTime 2023 9 1 0 0))
         (mkTime 2023 9 2 0 0)"
proof -
  have order: "\<not> time_Before (mkTime 2023 9 1 0 0) (mkTime 2023 8 30 0 0)"
    by code_simp
  have span: "daysFromTo (mkTime 2023 8 30 0 0) (mkTime 2023 9 1 0 0) + 1 = 3"
    and after: "time_AddDate_days (mkTime 2023 9 1 0 0) 1 = mkTime 2023 9 2 0 0"
    by code_simp+
  from report_partitions_range [OF parse_samples order, of scenario1_index]
  have "sum_list (map rowDays
         (reportRows scenario1_index (mkTime 2023 8 30 0 0) (mkTime 2023 9 1 0 0))) = 3"
    and "tiles (mkTime 2023 8 30 0 0)
         (reportRows scenario1_index (mkTime 2023 8 30 0 0) (mkTime 2023 9 1 0 0))
         (mkTime 2023 9 2 0 0)"
    unfolding span after by blast+
  with parse_samples order scenario1_rows show ?thesis by blast
qed


subsection \<open>The two places where the loop closes a gap\<close>

lemma reportLoop_closes_gap_before_active:
  assumes "\<not> time_After d endDate" and "dailyStats (time_Format_ymd d) = Some stats"
    and "0 <s nc"
  shows "reportLoop dailyStats endDate d gs nc =
           Gap gs (time_AddDate_days d (- 1)) nc # Active d stats #
           reportLoop dailyStats endDate (time_AddDate_days d 1) gs 0"
  using assms by (simp add: reportLoop.simps [of dailyStats endDate d])

lemma reportLoop_closes_gap_after_loop:
  assumes "time_After d endDate" and "0 <s nc"
  shows "reportLoop dailyStats endDate d gs nc = [Gap gs endDate nc]"
  using assms by (simp add: reportLoop.simps [of dailyStats endDate d])

lemma AddDate_1_inject:
  assumes "time_AddDate_days e 1 = time_AddDate_days e' 1"
  shows "e = e'"
proof -
  from assms have "unixSec (time_AddDate_days e 1) = unixSec (time_AddDate_days e' 1)"
    and "zoneOffset (time_AddDate_days e 1) = zoneOffset (time_AddDate_days e' 1)"
    by (simp_all only:)
  then show ?thesis by simp
qed

subsection \<open>More sample runs\<close>

lemma parse_more_samples:
  "parseDate ''2023-01-01'' = Inr (mkTime 2023 1 1 0 0)"
  "parseDate ''2023-01-03'' = Inr (mkTime 2023 1 3 0 0)"
  "parseDate ''2023-05-05'' = Inr (mkTime 2023 5 5 0 0)"
  by code_simp+

lemma hasEntry_empty [simp]: "\<not> hasEntry Map.empty d"
  by (simp add: hasEntry_def)

lemma scenario2_rows:
  "reportRows Map.empty (mkTime 2023 1 1 0 0) (mkTime 2023 1 3 0 0) =
     [Gap (mkTime 2023 1 1 0 0) (mkTime 2023 1 3 0 0) 3]"
  by code_simp

lemma noChangeMessage_eq:
  "noChangeMessage n =
     Sprintf_d n @ (if 1 < sint n then '' days'' else '' day'') @ '' no commits''"
  by (simp add: noChangeMessage_def word_sless_alt)


section \<open>Gaps are the maximal runs of days without entry (C3)\<close>

text \<open>
  C3.  For a start date and an end date as \<open>parseDate\<close> returns them, the end not
  before the start, and any index.  Every gap row spans at least one day, ends where
  its day count says, and spans only days without an entry; it is maximal: it starts
  on the start date or on the day after a day with an entry, and it ends on the end
  date or on the day before a day with an entry.  Every day of the range without an
  entry lies in exactly one gap row.  A range without any entry gives exactly one gap
  row, from the start date to the end date; a range with an entry on every day gives
  no gap row.  Where the loop meets a day with an entry while a gap is open, it prints
  the gap from its start to the day before, then the row of the day, and goes on with
  no gap open; a gap still open after the loop is printed from its start to the end
  date.
\<close>

theorem gaps_are_maximal_runs:
  assumes "parseDate a = Inr startDate" and "parseDate b = Inr endDate"
    and "\<not> time_Before endDate startDate"
  shows
    "(\<forall>s e n. Gap s e n \<in> set (reportRows dailyStats startDate endDate) \<longrightarrow>
        1 \<le> sint n \<and> e = time_AddDate_days s (sint n - 1) \<and>
        (\<forall>j \<in> {0..<sint n}. \<not> hasEntry dailyStats (time_AddDate_days s j)) \<and>
        (s = startDate \<or> hasEntry dailyStats (time_AddDate_days s (- 1))) \<and>
        (e = endDate \<or> hasEntry dailyStats (time_AddDate_days e 1)))
     \<and> (\<forall>j \<in> {0..daysFromTo startDate endDate}.
          \<not> hasEntry dailyStats (time_AddDate_days startDate j) \<longrightarrow>
          (\<exists>!row. row \<in> set (reportRows dailyStats startDate endDate) \<and> isGap row \<and>
             \<not> time_Before (time_AddDate_days startDate j) (rowStart row) \<and>
             \<not> time_After (time_AddDate_days startDate j) (rowEnd row)))
     \<and> ((\<forall>j \<in> {0..daysFromTo startDate endDate}.
            \<not> hasEntry dailyStats (time_AddDate_days startDate j)) \<longrightarrow>
          reportRows dailyStats startDate endDate =
            [Gap startDate endDate (word_of_int (daysFromTo startDate endDate + 1))])
     \<and> ((\<forall>j \<in> {0..daysFromTo startDate endDate}.
            hasEntry dailyStats (time_AddDate_days startDate j)) \<longrightarrow>
          (\<forall>row \<in> set (reportRows dailyStats startDate endDate). \<not> isGap row))
     \<and> (\<forall>d gs nc stats.
          \<not> time_After d endDate \<and> dailyStats (time_Format_ymd d) = Some stats \<and> 0 <s nc \<longrightarrow>
          reportLoop dailyStats endDate d gs nc =
            Gap gs (time_AddDate_days d (- 1)) nc # Active d stats #
            reportLoop dailyStats endDate (time_AddDate_days d 1) gs 0)
     \<and> (\<forall>d gs nc. time_After d endDate \<and> 0 <s nc \<longrightarrow>
          reportLoop dailyStats endDate d gs nc = [Gap gs endDate nc])"
proof -
  let ?rows = "reportRows dailyStats startDate endDate"
  let ?N = "daysFromTo startDate endDate"
  have days: "parsedDay startDate" "parsedDay endDate"
    using assms(1,2) by (simp_all add: parse_parsedDay)
  note ok = reportRows_OK [OF days assms(3), of dailyStats]
  note t = reportOK_tiles [OF ok]
  note range = range_days [OF days assms(3)]
  have gaps: "1 \<le> sint n \<and> e = time_AddDate_days s (sint n - 1) \<and>
        (\<forall>j \<in> {0..<sint n}. \<not> hasEntry dailyStats (time_AddDate_days s j)) \<and>
        (s = startDate \<or> hasEntry dailyStats (time_AddDate_days s (- 1))) \<and>
        (e = endDate \<or> hasEntry dailyStats (time_AddDate_days e 1))"
    if "Gap s e n \<in> set ?rows" for s e n
  proof -
    from reportOK_gap_right [OF ok that] have "e = endDate \<or> hasEntry dailyStats (time_AddDate_days e 1)"
      using AddDate_1_inject [of e endDate] by auto
    with reportOK_gap [OF ok that] reportOK_gap_left [OF ok that] show ?thesis
      by simp
  qed
  have one: "\<exists>!row. row \<in> set ?rows \<and> isGap row \<and>
             \<not> time_Before (time_AddDate_days startDate j) (rowStart row) \<and>
             \<not> time_After (time_AddDate_days startDate j) (rowEnd row)"
    if j: "j \<in> {0..?N}" and inactive: "\<not> hasEntry dailyStats (time_AddDate_days startDate j)" for j
  proof -
    let ?covers = "\<lambda>row. row \<in> set ?rows \<and> isGap row \<and>
             \<not> time_Before (time_AddDate_days startDate j) (rowStart row) \<and>
             \<not> time_After (time_AddDate_days startDate j) (rowEnd row)"
    have "unixSec startDate + 86400 * j < unixSec (time_AddDate_days endDate 1)"
      using j range(1) by simp
    with reportOK_covers [OF ok _ _ inactive] j
    obtain s e n where "Gap s e n \<in> set ?rows" "unixSec s \<le> unixSec startDate + 86400 * j"
      "unixSec startDate + 86400 * j \<le> unixSec e"
      by auto
    then have ex: "?covers (Gap s e n)"
      by (simp add: time_Before_def time_After_def)
    have "row = row'" if "?covers row" "?covers row'" for row row'
    proof -
      from that have "\<not> time_Before (rowEnd row) (rowStart row')"
        "\<not> time_Before (rowEnd row') (rowStart row)"
        by (auto simp: time_Before_def time_After_def)
      with sorted_wrt_cases [OF tiles_sorted [OF t], of row row'] that show ?thesis
        by blast
    qed
    with ex show ?thesis by blast
  qed
  have none: "?rows = [Gap startDate endDate (word_of_int (?N + 1))]"
    if "\<forall>j \<in> {0..?N}. \<not> hasEntry dailyStats (time_AddDate_days startDate j)"
    using days assms(3) that by (rule all_inactive_one_gap)
  have every: "\<forall>row \<in> set ?rows. \<not> isGap row"
    if "\<forall>j \<in> {0..?N}. hasEntry dailyStats (time_AddDate_days startDate j)"
    using all_active_no_gap [OF days assms(3) that] by blast
  have mech1: "reportLoop dailyStats endDate d gs nc =
            Gap gs (time_AddDate_days d (- 1)) nc # Active d stats #
            reportLoop dailyStats endDate (time_AddDate_days d 1) gs 0"
    if "\<not> time_After d endDate \<and> dailyStats (time_Format_ymd d) = Some stats \<and> 0 <s nc"
    for d gs nc stats
    using that by (intro reportLoop_closes_gap_before_active) simp_all
  have mech2: "reportLoop dailyStats endDate d gs nc = [Gap gs endDate nc]"
    if "time_After d endDate \<and> 0 <s nc" for d gs nc
    using that by (intro reportLoop_closes_gap_after_loop) simp_all
  show ?thesis
  proof (intro conjI allI impI ballI)
    fix s e n assume g: "Gap s e n \<in> set ?rows"
    from gaps [OF g] show "1 \<le> sint n" "e = time_AddDate_days s (sint n - 1)"
      "s = startDate \<or> hasEntry dailyStats (time_AddDate_days s (- 1))"
      "e = endDate \<or> hasEntry dailyStats (time_AddDate_days e 1)"
      by (rule conjunct1, rule conjunct2 [THEN conjunct1],
          rule conjunct2 [THEN conjunct2, THEN conjunct2, THEN conjunct1],
          rule conjunct2 [THEN conjunct2, THEN conjunct2, THEN conjunct2])
    fix j assume "j \<in> {0..<sint n}"
    with gaps [OF g] show "\<not> hasEntry dailyStats (time_AddDate_days s j)" by simp
  next
    fix j assume "j \<in> {0..?N}" "\<not> hasEntry dailyStats (time_AddDate_days startDate j)"
    then show "\<exists>!row. row \<in> set ?rows \<and> isGap row \<and>
             \<not> time_Before (time_AddDate_days startDate j) (rowStart row) \<and>
             \<not> time_After (time_AddDate_days startDate j) (rowEnd row)"
      by (rule one)
  next
    assume "\<forall>j \<in> {0..?N}. \<not> hasEntry dailyStats (time_AddDate_days startDate j)"
    then show "?rows = [Gap startDate endDate (word_of_int (?N + 1))]" by (rule none)
  next
    fix row assume "\<forall>j \<in> {0..?N}. hasEntry dailyStats (time_AddDate_days startDate j)"
      and "row \<in> set ?rows"
    with every show "\<not> isGap row" by simp
  next
    fix d gs stats and nc :: go_int
    assume "\<not> time_After d endDate \<and> dailyStats (time_Format_ymd d) = Some stats \<and> 0 <s nc"
    then show "reportLoop dailyStats endDate d gs nc =
            Gap gs (time_AddDate_days d (- 1)) nc # Active d stats #
            reportLoop dailyStats endDate (time_AddDate_days d 1) gs 0" by (rule mech1)
  next
    fix d gs and nc :: go_int assume "time_After d endDate \<and> 0 <s nc"
    then show "reportLoop dailyStats endDate d gs nc = [Gap gs endDate nc]" by (rule mech2)
  qed
qed

text \<open>
  In scenario 1 the one gap is 2023-08-31, between two days with entries; the three
  days of scenario 2 without any commit give one gap of three days; a single day with
  an entry gives no gap.
\<close>

theorem gaps_are_maximal_runs_witness:
  "parseDate ''2023-08-30'' = Inr (mkTime 2023 8 30 0 0)
   \<and> parseDate ''2023-09-01'' = Inr (mkTime 2023 9 1 0 0)
   \<and> \<not> time_Before (mkTime 2023 9 1 0 0) (mkTime 2023 8 30 0 0)
   \<and> Gap (mkTime 2023 8 31 0 0) (mkTime 2023 8 31 0 0) 1 \<in>
       set (reportRows scenario1_index (mkTime 2023 8 30 0 0) (mkTime 2023 9 1 0 0))
   \<and> \<not> hasEntry scenario1_index (mkTime 2023 8 31 0 0)
   \<and> hasEntry scenario1_index (mkTime 2023 8 30 0 0)
   \<and> hasEntry scenario1_index (mkTime 2023 9 1 0 0)
   \<and> reportRows Map.empty (mkTime 2023 1 1 0 0) (mkTime 2023 1 3 0 0) =
       [Gap (mkTime 2023 1 1 0 0) (mkTime 2023 1 3 0 0) 3]
   \<and> filter isGap (reportRows scenario1_index (mkTime 2023 8 30 0 0) (mkTime 2023 8 30 0 0)) = []"
proof -
  let ?a = "mkTime 2023 8 30 0 0" and ?g = "mkTime 2023 8 31 0 0" and ?b = "mkTime 2023 9 1 0 0"
  let ?s = "mkTime 2023 1 1 0 0" and ?e = "mkTime 2023 1 3 0 0"
  have order: "\<not> time_Before ?b ?a" "\<not> time_Before ?e ?s" "\<not> time_Before ?a ?a"
    by code_simp+
  have dates: "time_AddDate_days ?g (- 1) = ?a" "time_AddDate_days ?g 1 = ?b"
    "time_AddDate_days ?g 0 = ?g" "?g \<noteq> ?a" "?g \<noteq> ?b"
    "daysFromTo ?s ?e + 1 = 3" "daysFromTo ?a ?a = 0"
    by code_simp+
  have gap: "Gap ?g ?g 1 \<in> set (reportRows scenario1_index ?a ?b)"
    by (simp add: scenario1_rows)
  note one = gaps_are_maximal_runs [OF parse_samples order(1), of scenario1_index]
  note run = one [THEN conjunct1, rule_format, OF gap]
  have "(0 :: int) \<in> {0..<sint (1 :: go_int)}" by simp
  with run have "\<not> hasEntry scenario1_index (time_AddDate_days ?g 0)" by blast
  then have "\<not> hasEntry scenario1_index ?g" unfolding dates(3) .
  moreover from run have "hasEntry scenario1_index ?a" "hasEntry scenario1_index ?b"
    using dates(1,2,4,5) by auto
  moreover
  note two = gaps_are_maximal_runs [OF parse_more_samples(1,2) order(2), of Map.empty]
  from two [THEN conjunct2, THEN conjunct2, THEN conjunct1]
  have "reportRows Map.empty ?s ?e = [Gap ?s ?e 3]"
    by (simp add: dates)
  moreover
  note three = gaps_are_maximal_runs [OF parse_samples(1) parse_samples(1) order(3), of scenario1_index]
  have "hasEntry scenario1_index ?a" by fact
  with three [THEN conjunct2, THEN conjunct2, THEN conjunct2, THEN conjunct1]
  have "filter isGap (reportRows scenario1_index ?a ?a) = []"
    by (simp add: dates filter_empty_conv)
  ultimately show ?thesis
    using parse_samples order(1) gap by blast
qed


section \<open>The message of a gap (C4)\<close>

text \<open>
  C4.  The message of a gap is its day count, then \<open>days\<close> when the count is greater
  than one and \<open>day\<close> otherwise, then \<open>no commits\<close>.  Every gap row of a report has a
  count of at least one, so its message has \<open>day\<close> exactly when the count is one.  A
  range of a single day without an entry gives exactly one gap row, of one day, whose
  printed line carries the message \<open>1 day no commits\<close>.
\<close>

theorem gap_message_number:
  assumes "parseDate a = Inr startDate" and "parseDate b = Inr endDate"
    and "\<not> time_Before endDate startDate"
  shows
    "(\<forall>n. noChangeMessage n =
          Sprintf_d n @ (if 1 < sint n then '' days'' else '' day'') @ '' no commits'')
     \<and> (\<forall>s e n. Gap s e n \<in> set (reportRows dailyStats startDate endDate) \<longrightarrow>
          1 \<le> sint n \<and>
          noChangeMessage n =
            Sprintf_d n @ (if sint n = 1 then '' day'' else '' days'') @ '' no commits'')
     \<and> (startDate = endDate \<and> \<not> hasEntry dailyStats startDate \<longrightarrow>
          reportRows dailyStats startDate endDate = [Gap startDate startDate 1] \<and>
          noChangeMessage 1 = ''1 day no commits'' \<and>
          concat (map printRow (reportRows dailyStats startDate endDate)) ! 1 =
            colorOrange @ padText (formatDateRange startDate startDate) 25 @ colorReset @ ''|'' @
            colorOrange @ centerText ''1 day no commits'' 55 @ colorReset)"
proof -
  let ?rows = "reportRows dailyStats startDate endDate"
  have days: "parsedDay startDate" "parsedDay endDate"
    using assms(1,2) by (simp_all add: parse_parsedDay)
  note ok = reportRows_OK [OF days assms(3), of dailyStats]
  have gaps: "1 \<le> sint n \<and>
          noChangeMessage n =
            Sprintf_d n @ (if sint n = 1 then '' day'' else '' days'') @ '' no commits''"
    if "Gap s e n \<in> set ?rows" for s e n
  proof -
    from reportOK_gap [OF ok that] have "1 \<le> sint n" by blast
    then show ?thesis by (simp add: noChangeMessage_eq)
  qed
  have one: "noChangeMessage 1 = ''1 day no commits''"
    by code_simp
  have single: "?rows = [Gap startDate startDate 1] \<and>
          noChangeMessage 1 = ''1 day no commits'' \<and>
          concat (map printRow ?rows) ! 1 =
            colorOrange @ padText (formatDateRange startDate startDate) 25 @ colorReset @ ''|'' @
            colorOrange @ centerText ''1 day no commits'' 55 @ colorReset"
    if "startDate = endDate \<and> \<not> hasEntry dailyStats startDate"
  proof -
    from that have same: "endDate = startDate" and none: "\<not> hasEntry dailyStats startDate"
      by blast+
    have "\<forall>j \<in> {0..daysFromTo startDate endDate}.
        \<not> hasEntry dailyStats (time_AddDate_days startDate j)"
      using none by (simp add: same daysFromTo_def)
    from all_inactive_one_gap [OF days assms(3) this]
    have rows: "?rows = [Gap startDate startDate 1]"
      by (simp add: same daysFromTo_def)
    show ?thesis
      unfolding rows
      by (simp add: one printNoChangeRow_def totalWidth_def dateRangeWidth_def
          filesChangedWidth_def additionsWidth_def deletionsWidth_def totalChangesWidth_def)
  qed
  show ?thesis
  proof (intro conjI allI impI)
    fix n :: go_int
    show "noChangeMessage n =
          Sprintf_d n @ (if 1 < sint n then '' days'' else '' day'') @ '' no commits''"
      by (rule noChangeMessage_eq)
  next
    fix s e n assume "Gap s e n \<in> set ?rows"
    from gaps [OF this] show "1 \<le> sint n"
      and "noChangeMessage n =
            Sprintf_d n @ (if sint n = 1 then '' day'' else '' days'') @ '' no commits''"
      by blast+
  next
    assume "startDate = endDate \<and> \<not> hasEntry dailyStats startDate"
    from single [OF this] show "?rows = [Gap startDate startDate 1]"
      and "noChangeMessage 1 = ''1 day no commits''"
      and "concat (map printRow ?rows) ! 1 =
            colorOrange @ padText (formatDateRange startDate startDate) 25 @ colorReset @ ''|'' @
            colorOrange @ centerText ''1 day no commits'' 55 @ colorReset"
      by blast+
  qed
qed

text \<open>Scenario 3, a single day without commits, and the three days of scenario 2.\<close>

theorem gap_message_number_witness:
  "parseDate ''2023-05-05'' = Inr (mkTime 2023 5 5 0 0)
   \<and> \<not> time_Before (mkTime 2023 5 5 0 0) (mkTime 2023 5 5 0 0)
   \<and> \<not> hasEntry Map.empty (mkTime 2023 5 5 0 0)
   \<and> reportRows Map.empty (mkTime 2023 5 5 0 0) (mkTime 2023 5 5 0 0) =
       [Gap (mkTime 2023 5 5 0 0) (mkTime 2023 5 5 0 0) 1]
   \<and> noChangeMessage 1 = ''1 day no commits''
   \<and> concat (map printRow (reportRows Map.empty (mkTime 2023 5 5 0 0) (mkTime 2023 5 5 0 0))) ! 1 =
       colorOrange @ ''2023-05-05 ~ 05-05       '' @ colorReset @ ''|'' @
       colorOrange @ ''                   1 day no commits                    '' @ colorReset
   \<and> Gap (mkTime 2023 1 1 0 0) (mkTime 2023 1 3 0 0) 3 \<in>
       set (reportRows Map.empty (mkTime 2023 1 1 0 0) (mkTime 2023 1 3 0 0))
   \<and> noChangeMessage 3 = ''3 days no commits''"
proof -
  let ?d = "mkTime 2023 5 5 0 0"
  let ?s = "mkTime 2023 1 1 0 0" and ?e = "mkTime 2023 1 3 0 0"
  have order: "\<not> time_Before ?d ?d" "\<not> time_Before ?e ?s"
    by code_simp+
  have cells: "padText (formatDateRange ?d ?d) 25 = ''2023-05-05 ~ 05-05       ''"
    "centerText ''1 day no commits'' 55 = ''                   1 day no commits                    ''"
    "Sprintf_d 3 = ''3''" "sint (3 :: go_int) \<noteq> 1"
    by code_simp+
  have none: "?d = ?d \<and> \<not> hasEntry Map.empty ?d" by simp
  then have empty: "\<not> hasEntry Map.empty ?d" ..
  note single = gap_message_number [OF parse_more_samples(3) parse_more_samples(3) order(1),
      of Map.empty, THEN conjunct2, THEN conjunct2, rule_format, OF none]
  note rows = single [THEN conjunct1]
  note message = single [THEN conjunct2, THEN conjunct1]
  note line = single [THEN conjunct2, THEN conjunct2, unfolded cells]
  have gap: "Gap ?s ?e 3 \<in> set (reportRows Map.empty ?s ?e)"
    by (simp add: scenario2_rows)
  note three = gap_message_number [OF parse_more_samples(1,2) order(2),
      of Map.empty, THEN conjunct2, THEN conjunct1, rule_format, OF gap]
  from three have plural: "noChangeMessage 3 = ''3 days no commits''"
    by (simp add: cells)
  from parse_more_samples(3) order(1) empty rows message line gap plural show ?thesis
    by (intro conjI)
qed


section \<open>Printed lines\<close>

lemma plainText_append [simp]: "plainText (xs @ ys) \<longleftrightarrow> plainText xs \<and> plainText ys"
  by (auto simp: plainText_def)

lemma plainText_Cons [simp]:
  "plainText (c # cs) \<longleftrightarrow> c \<noteq> CHR 0x1B \<and> c \<noteq> CHR ''|'' \<and> plainText cs"
  by (auto simp: plainText_def)

lemma plainText_Nil [simp]: "plainText []"
  by (simp add: plainText_def)

lemma plainText_replicate [simp]:
  "plainText (replicate n c) \<longleftrightarrow> n = 0 \<or> (c \<noteq> CHR 0x1B \<and> c \<noteq> CHR ''|'')"
  by (auto simp: plainText_def)

lemma plainText_take: "plainText s \<Longrightarrow> plainText (take n s)"
  by (auto simp: plainText_def dest: in_set_takeD)

lemma digitChar_plain: "digitChar d \<noteq> CHR 0x1B \<and> digitChar d \<noteq> CHR ''|''"
proof -
  have "''0123456789'' ! (d mod 10) \<in> set ''0123456789''"
    by (rule nth_mem) simp
  then show ?thesis
    unfolding digitChar_def by auto
qed

lemma plainText_digits: "plainText (digits n)"
proof (induction n rule: digits.induct)
  case (1 n)
  then show ?case
    by (subst digits.simps) (simp add: digitChar_plain)
qed

lemma plainText_itoa: "plainText (itoa i)"
  by (simp add: itoa_def plainText_digits)

lemma plainText_appendInt: "plainText (appendInt x w)"
  by (simp add: appendInt_def Let_def plainText_digits)

lemma plainText_Format_ymd: "plainText (time_Format_ymd t)"
  by (simp add: time_Format_ymd_def plainText_appendInt split: prod.splits)

lemma plainText_Format_md: "plainText (time_Format_md t)"
  by (simp add: time_Format_md_def plainText_appendInt split: prod.splits)

lemma plainText_formatDateRange: "plainText (formatDateRange s e)"
  by (simp add: formatDateRange_def Let_def plainText_Format_ymd plainText_Format_md)

lemma plainText_noChangeMessage: "plainText (noChangeMessage n)"
  by (simp add: noChangeMessage_def Let_def Sprintf_d_def plainText_itoa)

lemma plainText_padText: "plainText s \<Longrightarrow> plainText (padText s w)"
  by (simp add: padText_def plainText_take)

lemma plainText_centerText: "plainText s \<Longrightarrow> plainText (centerText s w)"
  by (simp add: centerText_def Let_def plainText_take)

lemma stripEscapes_plain:
  "plainText xs \<Longrightarrow> stripEscapes False (xs @ ys) = xs @ stripEscapes False ys"
  by (induction xs) simp_all

lemma visible_plain: "plainText xs \<Longrightarrow> visible xs = xs"
  using stripEscapes_plain [of xs "[]"] by (simp add: visible_def)

lemma stripEscapes_colorOrange:
  "stripEscapes False (colorOrange @ ys) = stripEscapes False ys"
  by (simp add: colorOrange_def)

lemma stripEscapes_colorReset:
  "stripEscapes False (colorReset @ ys) = stripEscapes False ys"
  by (simp add: colorReset_def)

lemma visible_coloured:
  "plainText xs \<Longrightarrow> visible (colorOrange @ xs @ colorReset @ ys) = xs @ visible ys"
  by (simp add: visible_def stripEscapes_colorOrange stripEscapes_plain stripEscapes_colorReset)

lemma length_digits: "0 < k \<Longrightarrow> n < 10 ^ k \<Longrightarrow> length (digits n) \<le> k"
proof (induction k arbitrary: n)
  case 0
  then show ?case by simp
next
  case (Suc k)
  show ?case
  proof (cases "n < 10")
    case True
    then show ?thesis by (subst digits.simps) simp
  next
    case False
    with Suc.prems have "0 < k" by (cases k) auto
    moreover have "n div 10 < 10 ^ k" using Suc.prems by (simp add: less_mult_imp_div_less)
    ultimately have "length (digits (n div 10)) \<le> k" by (rule Suc.IH)
    with False show ?thesis by (subst digits.simps) simp
  qed
qed

lemma length_Sprintf_d: "length (Sprintf_d n) \<le> 20"
proof -
  have "sint n < 2 ^ 63" "- (2 ^ 63) \<le> sint n"
    using sint_lt [of n] sint_ge [of n] by simp_all
  then have "nat \<bar>sint n\<bar> < 10 ^ 19" by simp
  then have "length (digits (nat \<bar>sint n\<bar>)) \<le> 19"
    by (intro length_digits) simp_all
  then show ?thesis
    by (auto simp: Sprintf_d_def itoa_def abs_if)
qed

lemma length_noChangeMessage: "length (noChangeMessage n) < 55"
  using length_Sprintf_d [of n] by (simp add: noChangeMessage_def Let_def)

lemmas widths = totalWidth_def dateRangeWidth_def filesChangedWidth_def additionsWidth_def
  deletionsWidth_def totalChangesWidth_def

lemma visible_Nil [simp]: "visible [] = []"
  by (simp add: visible_def)

lemma header_width: "\<forall>line \<in> set printTableHeader. length (visible line) = 81"
  by code_simp

lemma gap_lines:
  "printRow (Gap s e n) =
     [colorOrange @ replicate 81 CHR ''-'' @ colorReset,
      colorOrange @ padText (formatDateRange s e) 25 @ colorReset @ ''|'' @
      colorOrange @ centerText (noChangeMessage n) 55 @ colorReset,
      replicate 81 CHR ''-'']"
  by (simp add: printNoChangeRow_def Let_def widths)

lemma gap_line_visible:
  "visible (colorOrange @ padText (formatDateRange s e) 25 @ colorReset @ ''|'' @
            colorOrange @ centerText (noChangeMessage n) 55 @ colorReset) =
   padText (formatDateRange s e) 25 @ ''|'' @ centerText (noChangeMessage n) 55"
proof -
  have "visible (colorOrange @ centerText (noChangeMessage n) 55 @ colorReset @ []) =
        centerText (noChangeMessage n) 55 @ visible []"
    by (intro visible_coloured plainText_centerText plainText_noChangeMessage)
  then have tail: "stripEscapes False (colorOrange @ centerText (noChangeMessage n) 55 @ colorReset) =
        centerText (noChangeMessage n) 55"
    by (simp add: visible_def)
  have "visible (colorOrange @ padText (formatDateRange s e) 25 @ colorReset @
                 (''|'' @ colorOrange @ centerText (noChangeMessage n) 55 @ colorReset)) =
        padText (formatDateRange s e) 25 @
        visible (''|'' @ colorOrange @ centerText (noChangeMessage n) 55 @ colorReset)"
    by (intro visible_coloured plainText_padText plainText_formatDateRange)
  then show ?thesis
    by (simp add: visible_def tail)
qed

lemma rule_visible: "visible (replicate n CHR ''-'') = replicate n CHR ''-''"
  by (rule visible_plain) simp

lemma coloured_rule_visible:
  "visible (colorOrange @ replicate n CHR ''-'' @ colorReset) = replicate n CHR ''-''"
  using visible_coloured [of "replicate n CHR ''-''" "[]"] by simp

lemma count_bar_plain: "plainText s \<Longrightarrow> count_list s CHR ''|'' = 0"
  by (induction s) simp_all

lemma gap_line_one_bar:
  "count_list (colorOrange @ padText (formatDateRange s e) 25 @ colorReset @ ''|'' @
            colorOrange @ centerText (noChangeMessage n) 55 @ colorReset) CHR ''|'' = 1"
proof -
  have "count_list colorOrange CHR ''|'' = 0" "count_list colorReset CHR ''|'' = 0"
    by (simp_all add: colorOrange_def colorReset_def)
  moreover have "count_list (padText (formatDateRange s e) 25) CHR ''|'' = 0"
    by (intro count_bar_plain plainText_padText plainText_formatDateRange)
  moreover have "count_list (centerText (noChangeMessage n) 55) CHR ''|'' = 0"
    by (intro count_bar_plain plainText_centerText plainText_noChangeMessage)
  ultimately show ?thesis by simp
qed

lemma active_lines:
  "printRow (Active d stats) =
     [padText (time_Format_ymd d) 25 @ ''|'' @
      centerText (Sprintf_d (word_of_nat (card (FilesChanged stats)))) 15 @ ''|'' @
      centerText (Sprintf_d (Additions stats)) 11 @ ''|'' @
      centerText (Sprintf_d (Deletions stats)) 11 @ ''|'' @
      centerText (Sprintf_d (Additions stats + Deletions stats)) 15,
      replicate 81 CHR ''-'']"
  by (simp add: printTableRow_def Let_def widths)

lemma plainText_Sprintf_d: "plainText (Sprintf_d n)"
  by (simp add: Sprintf_d_def plainText_itoa)

lemma stripEscapes_bar: "stripEscapes False (CHR ''|'' # ys) = CHR ''|'' # stripEscapes False ys"
  by simp

lemma active_line_visible:
  assumes "plainText c1" "plainText c2" "plainText c3" "plainText c4" "plainText c5"
  shows "visible (c1 @ ''|'' @ c2 @ ''|'' @ c3 @ ''|'' @ c4 @ ''|'' @ c5) =
         c1 @ ''|'' @ c2 @ ''|'' @ c3 @ ''|'' @ c4 @ ''|'' @ c5"
  using assms stripEscapes_plain [of c5 "[]"]
  by (simp add: visible_def stripEscapes_plain)

lemma row_width: "\<forall>line \<in> set (printRow row). length (visible line) = 81"
proof (cases row)
  case (Active d stats)
  have "length (visible (padText (time_Format_ymd d) 25 @ ''|'' @
      centerText (Sprintf_d (word_of_nat (card (FilesChanged stats)))) 15 @ ''|'' @
      centerText (Sprintf_d (Additions stats)) 11 @ ''|'' @
      centerText (Sprintf_d (Deletions stats)) 11 @ ''|'' @
      centerText (Sprintf_d (Additions stats + Deletions stats)) 15)) = 81"
    by (subst active_line_visible)
      (simp_all add: plainText_padText plainText_centerText plainText_Format_ymd
        plainText_Sprintf_d length_padText length_centerText)
  then show ?thesis
    unfolding Active active_lines by (simp add: rule_visible)
next
  case (Gap s e n)
  have "length (visible (colorOrange @ padText (formatDateRange s e) 25 @ colorReset @ ''|'' @
            colorOrange @ centerText (noChangeMessage n) 55 @ colorReset)) = 81"
    unfolding gap_line_visible by (simp add: length_padText length_centerText)
  then show ?thesis
    unfolding Gap gap_lines
    by (simp add: coloured_rule_visible rule_visible)
qed


section \<open>Every line is 81 characters wide (C10)\<close>

text \<open>
  C10.  Every line the table prints shows 81 characters, colour codes not counted: the
  two lines of the header, the two lines of an active row and the three lines of a
  gap row, for any row.  The middle line of a gap row is, between colour codes, the
  range cell of 25 characters, one column separator, and one cell of 55 characters
  with the message; the line has exactly one separator, and the message, always
  shorter than 55 characters, stands centred in its cell.
\<close>

theorem every_line_is_81_wide:
  "(\<forall>line \<in> set printTableHeader. length (visible line) = 81)
   \<and> (\<forall>line \<in> set (printRow row). length (visible line) = 81)
   \<and> printRow (Gap s e n) ! 1 =
       colorOrange @ padText (formatDateRange s e) 25 @ colorReset @ ''|'' @
       colorOrange @ centerText (noChangeMessage n) 55 @ colorReset
   \<and> visible (printRow (Gap s e n) ! 1) =
       padText (formatDateRange s e) 25 @ ''|'' @ centerText (noChangeMessage n) 55
   \<and> length (padText (formatDateRange s e) 25) = 25
   \<and> length (centerText (noChangeMessage n) 55) = 55
   \<and> count_list (printRow (Gap s e n) ! 1) CHR ''|'' = 1
   \<and> centerText (noChangeMessage n) 55 =
       replicate ((55 - length (noChangeMessage n)) div 2) CHR '' '' @ noChangeMessage n @
       replicate ((55 - length (noChangeMessage n) + 1) div 2) CHR '' ''"
proof -
  have line: "printRow (Gap s e n) ! 1 =
       colorOrange @ padText (formatDateRange s e) 25 @ colorReset @ ''|'' @
       colorOrange @ centerText (noChangeMessage n) 55 @ colorReset"
    unfolding gap_lines by simp
  have shown: "visible (printRow (Gap s e n) ! 1) =
       padText (formatDateRange s e) 25 @ ''|'' @ centerText (noChangeMessage n) 55"
    unfolding line by (rule gap_line_visible)
  have bar: "count_list (printRow (Gap s e n) ! 1) CHR ''|'' = 1"
    unfolding line by (rule gap_line_one_bar)
  have centred: "centerText (noChangeMessage n) 55 =
       replicate ((55 - length (noChangeMessage n)) div 2) CHR '' '' @ noChangeMessage n @
       replicate ((55 - length (noChangeMessage n) + 1) div 2) CHR '' ''"
    using length_noChangeMessage by (rule centerText_centers)
  from header_width row_width line shown length_padText length_centerText bar centred
  show ?thesis by (intro conjI)
qed

text \<open>The header, the gap row of scenario 2 and the first active row of scenario 1.\<close>

theorem every_line_is_81_wide_witness:
  "list_all (\<lambda>line. length (visible line) = 81) printTableHeader
   \<and> list_all (\<lambda>line. length (visible line) = 81)
       (printRow (Gap (mkTime 2023 1 1 0 0) (mkTime 2023 1 3 0 0) 3))
   \<and> list_all (\<lambda>line. length (visible line) = 81)
       (printRow (Active (mkTime 2023 8 30 0 0)
          \<lparr>FilesChanged = {''a.go'', ''b.go''}, Additions = 10, Deletions = 2\<rparr>))
   \<and> visible (printRow (Gap (mkTime 2023 1 1 0 0) (mkTime 2023 1 3 0 0) 3) ! 1) =
       ''2023-01-01 ~ 01-03       |                   3 days no commits                   ''
   \<and> count_list (printRow (Gap (mkTime 2023 1 1 0 0) (mkTime 2023 1 3 0 0) 3) ! 1) CHR ''|'' = 1"
proof -
  let ?gap = "Gap (mkTime 2023 1 1 0 0) (mkTime 2023 1 3 0 0) 3"
  let ?active = "Active (mkTime 2023 8 30 0 0)
          \<lparr>FilesChanged = {''a.go'', ''b.go''}, Additions = 10, Deletions = 2\<rparr>"
  note g = every_line_is_81_wide [of ?gap "mkTime 2023 1 1 0 0" "mkTime 2023 1 3 0 0" 3]
  note a = every_line_is_81_wide [of ?active "mkTime 2023 1 1 0 0" "mkTime 2023 1 3 0 0" 3]
  have cells: "padText (formatDateRange (mkTime 2023 1 1 0 0) (mkTime 2023 1 3 0 0)) 25 =
      ''2023-01-01 ~ 01-03       ''"
    "centerText (noChangeMessage 3) 55 =
      ''                   3 days no commits                   ''"
    by code_simp+
  have "list_all (\<lambda>line. length (visible line) = 81) printTableHeader"
    unfolding list_all_iff by (rule g [THEN conjunct1])
  moreover have "list_all (\<lambda>line. length (visible line) = 81) (printRow ?gap)"
    unfolding list_all_iff by (rule g [THEN conjunct2, THEN conjunct1])
  moreover have "list_all (\<lambda>line. length (visible line) = 81) (printRow ?active)"
    unfolding list_all_iff by (rule a [THEN conjunct2, THEN conjunct1])
  moreover have "visible (printRow ?gap ! 1) =
       ''2023-01-01 ~ 01-03       |                   3 days no commits                   ''"
    using g [THEN conjunct2, THEN conjunct2, THEN conjunct2, THEN conjunct1]
    by (simp add: cells)
  moreover have "count_list (printRow ?gap ! 1) CHR ''|'' = 1"
    by (rule g [THEN conjunct2, THEN conjunct2, THEN conjunct2, THEN conjunct2, THEN conjunct2,
          THEN conjunct2, THEN conjunct1])
  ultimately show ?thesis by (intro conjI)
qed


section \<open>The branches of \<open>main\<close>\<close>

lemma main_wrong_count: "length args \<noteq> 4 \<Longrightarrow> main w args = (usage, 1)"
  by (simp add: main_def)

lemma main_bad_start:
  "length args = 4 \<Longrightarrow> parseDate (args ! 2) = Inl err \<Longrightarrow>
   main w args = ([Stdout (''Invalid start date format: '' @ error_Error err)], 1)"
  by (simp add: main_def)

lemma main_bad_end:
  "length args = 4 \<Longrightarrow> parseDate (args ! 2) = Inr startDate \<Longrightarrow>
   parseDate (args ! 3) = Inl err \<Longrightarrow>
   main w args = ([Stdout (''Invalid end date format: '' @ error_Error err)], 1)"
  by (simp add: main_def)

lemma main_end_before_start:
  "length args = 4 \<Longrightarrow> parseDate (args ! 2) = Inr startDate \<Longrightarrow>
   parseDate (args ! 3) = Inr endDate \<Longrightarrow> time_Before endDate startDate \<Longrightarrow>
   main w args = ([Stdout ''End date must be after start date''], 1)"
  by (simp add: main_def)

lemma main_valid:
  assumes "length args = 4" and "parseDate (args ! 2) = Inr startDate"
    and "parseDate (args ! 3) = Inr endDate" and "\<not> time_Before endDate startDate"
  shows "\<exists>rest code. main w args = (CallFilepathAbs (args ! 1) # rest, code)"
  using assms by (simp add: main_def Let_def split: sum.splits)

lemma main_invalid:
  assumes "invalidInput args"
  shows "snd (main w args) = 1 \<and> fst (main w args) \<noteq> [] \<and>
         list_all isStdout (fst (main w args)) \<and> main w' args = main w args"
proof (cases "length args = 4")
  case False
  then show ?thesis by (simp add: main_wrong_count usage_def)
next
  case len: True
  show ?thesis
  proof (cases "parseDate (args ! 2)")
    case (Inl err)
    with len show ?thesis by (simp add: main_bad_start)
  next
    case start: (Inr startDate)
    show ?thesis
    proof (cases "parseDate (args ! 3)")
      case (Inl err)
      with len start show ?thesis by (simp add: main_bad_end)
    next
      case (Inr endDate)
      with assms len start have "time_Before endDate startDate"
        by (simp add: invalidInput_def)
      with len start Inr show ?thesis by (simp add: main_end_before_start)
    qed
  qed
qed


section \<open>Invalid input ends the run before the repository is touched (C7)\<close>

text \<open>
  C7.  When the arguments fail validation, the exit code is 1, something is printed,
  and the run consists of prints only: it calls neither the file system nor the
  repository, and it is the same in every world.  What is printed is the usage for a
  wrong number of arguments, the parse error after \<open>Invalid start date format\<close> or
  \<open>Invalid end date format\<close> for a date that does not parse, and
  \<open>End date must be after start date\<close> for an end before the start.  A start date equal
  to the end date passes validation: the run goes on to resolve the repository path.
\<close>

theorem invalid_input_exits_before_repository:
  "(invalidInput args \<longrightarrow>
      snd (main w args) = 1 \<and> fst (main w args) \<noteq> [] \<and>
      list_all isStdout (fst (main w args)) \<and> main w' args = main w args)
   \<and> (length args \<noteq> 4 \<longrightarrow> main w args = (usage, 1))
   \<and> (length args = 4 \<and> parseDate (args ! 2) = Inl err \<longrightarrow>
        main w args = ([Stdout (''Invalid start date format: '' @ error_Error err)], 1))
   \<and> (length args = 4 \<and> parseDate (args ! 2) = Inr startDate \<and>
        parseDate (args ! 3) = Inl err \<longrightarrow>
        main w args = ([Stdout (''Invalid end date format: '' @ error_Error err)], 1))
   \<and> (length args = 4 \<and> parseDate (args ! 2) = Inr startDate \<and>
        parseDate (args ! 3) = Inr endDate \<and> time_Before endDate startDate \<longrightarrow>
        main w args = ([Stdout ''End date must be after start date''], 1))
   \<and> (length args = 4 \<and> parseDate (args ! 2) = Inr startDate \<and>
        parseDate (args ! 3) = Inr startDate \<longrightarrow>
        \<not> invalidInput args \<and>
        (\<exists>rest code. main w args = (CallFilepathAbs (args ! 1) # rest, code)))"
proof (intro conjI impI)
  assume "invalidInput args"
  from main_invalid [OF this, of w w']
  show "snd (main w args) = 1" "fst (main w args) \<noteq> []"
    "list_all isStdout (fst (main w args))" "main w' args = main w args"
    by simp_all
next
  assume "length args \<noteq> 4"
  then show "main w args = (usage, 1)" by (rule main_wrong_count)
next
  assume "length args = 4 \<and> parseDate (args ! 2) = Inl err"
  then show "main w args = ([Stdout (''Invalid start date format: '' @ error_Error err)], 1)"
    by (simp add: main_bad_start)
next
  assume "length args = 4 \<and> parseDate (args ! 2) = Inr startDate \<and>
        parseDate (args ! 3) = Inl err"
  then show "main w args = ([Stdout (''Invalid end date format: '' @ error_Error err)], 1)"
    by (simp add: main_bad_end)
next
  assume "length args = 4 \<and> parseDate (args ! 2) = Inr startDate \<and>
        parseDate (args ! 3) = Inr endDate \<and> time_Before endDate startDate"
  then show "main w args = ([Stdout ''End date must be after start date''], 1)"
    by (simp add: main_end_before_start)
next
  assume a: "length args = 4 \<and> parseDate (args ! 2) = Inr startDate \<and>
        parseDate (args ! 3) = Inr startDate"
  then show "\<not> invalidInput args"
    by (simp add: invalidInput_def time_Before_def)
  have "\<not> time_Before startDate startDate" by (simp add: time_Before_def)
  with a show "\<exists>rest code. main w args = (CallFilepathAbs (args ! 1) # rest, code)"
    by (intro main_valid) simp_all
qed

text \<open>
  Scenario 4, an end date before the start date; a month 13; a word for a date; too
  few arguments; and the same day as start and end.
\<close>

theorem invalid_input_exits_before_repository_witness:
  "invalidInput [''git-stat'', ''/repo'', ''2023-09-05'', ''2023-09-01'']
   \<and> main (worldOf scenario5) [''git-stat'', ''/repo'', ''2023-09-05'', ''2023-09-01''] =
       ([Stdout ''End date must be after start date''], 1)
   \<and> main (worldOf []) [''git-stat'', ''/repo'', ''2023-09-05'', ''2023-09-01''] =
       main (worldOf scenario5) [''git-stat'', ''/repo'', ''2023-09-05'', ''2023-09-01'']
   \<and> main (worldOf scenario5) [''git-stat'', ''/repo'', ''2023-13-01'', ''2023-09-01''] =
       ([Stdout (''Invalid start date format: '' @
           error_Error (ParseError ''2023-13-01'' ''01'' ''-01'' '': month out of range''))], 1)
   \<and> main (worldOf scenario5) [''git-stat'', ''/repo'', ''2023-09-01'', ''yesterday''] =
       ([Stdout (''Invalid end date format: '' @
           error_Error (ParseError ''yesterday'' ''2006'' ''yesterday'' []))], 1)
   \<and> main (worldOf scenario5) [''git-stat'', ''/repo''] = (usage, 1)
   \<and> \<not> invalidInput [''git-stat'', ''/repo'', ''2023-05-05'', ''2023-05-05'']
   \<and> (\<exists>rest code. main (worldOf scenario5) [''git-stat'', ''/repo'', ''2023-05-05'', ''2023-05-05''] =
         (CallFilepathAbs ''/repo'' # rest, code))"
proof -
  let ?w = "worldOf scenario5"
  let ?late = "[''git-stat'', ''/repo'', ''2023-09-05'', ''2023-09-01'']"
  let ?month = "[''git-stat'', ''/repo'', ''2023-13-01'', ''2023-09-01'']"
  let ?word = "[''git-stat'', ''/repo'', ''2023-09-01'', ''yesterday'']"
  let ?few = "[''git-stat'', ''/repo'']"
  let ?same = "[''git-stat'', ''/repo'', ''2023-05-05'', ''2023-05-05'']"
  have parsed: "parseDate ''2023-09-05'' = Inr (mkTime 2023 9 5 0 0)"
    "parseDate ''2023-13-01'' = Inl (ParseError ''2023-13-01'' ''01'' ''-01'' '': month out of range'')"
    "parseDate ''yesterday'' = Inl (ParseError ''yesterday'' ''2006'' ''yesterday'' [])"
    by code_simp+
  have before: "time_Before (mkTime 2023 9 1 0 0) (mkTime 2023 9 5 0 0)"
    by code_simp
  have invalid: "invalidInput ?late"
    by (simp add: invalidInput_def parsed parse_samples before)
  note late = invalid_input_exits_before_repository
    [of ?late ?w "worldOf []" _ "mkTime 2023 9 5 0 0" "mkTime 2023 9 1 0 0"]
  have h_late: "length ?late = 4 \<and> parseDate (?late ! 2) = Inr (mkTime 2023 9 5 0 0) \<and>
      parseDate (?late ! 3) = Inr (mkTime 2023 9 1 0 0) \<and>
      time_Before (mkTime 2023 9 1 0 0) (mkTime 2023 9 5 0 0)"
    by (simp add: parsed parse_samples before)
  have r_late: "main ?w ?late = ([Stdout ''End date must be after start date''], 1)"
    by (rule late [THEN conjunct2, THEN conjunct2, THEN conjunct2, THEN conjunct2, THEN conjunct1,
          rule_format, OF h_late])
  have r_world: "main (worldOf []) ?late = main ?w ?late"
    using late [THEN conjunct1, rule_format, OF invalid] by (elim conjE)
  note month = invalid_input_exits_before_repository
    [of ?month ?w ?w "ParseError ''2023-13-01'' ''01'' ''-01'' '': month out of range''"]
  have h_month: "length ?month = 4 \<and> parseDate (?month ! 2) =
      Inl (ParseError ''2023-13-01'' ''01'' ''-01'' '': month out of range'')"
    by (simp add: parsed)
  have r_month: "main ?w ?month = ([Stdout (''Invalid start date format: '' @
           error_Error (ParseError ''2023-13-01'' ''01'' ''-01'' '': month out of range''))], 1)"
    by (rule month [THEN conjunct2, THEN conjunct2, THEN conjunct1, rule_format, OF h_month])
  note word = invalid_input_exits_before_repository
    [of ?word ?w ?w "ParseError ''yesterday'' ''2006'' ''yesterday'' []" "mkTime 2023 9 1 0 0"]
  have h_word: "length ?word = 4 \<and> parseDate (?word ! 2) = Inr (mkTime 2023 9 1 0 0) \<and>
      parseDate (?word ! 3) = Inl (ParseError ''yesterday'' ''2006'' ''yesterday'' [])"
    by (simp add: parsed parse_samples)
  have r_word: "main ?w ?word = ([Stdout (''Invalid end date format: '' @
           error_Error (ParseError ''yesterday'' ''2006'' ''yesterday'' []))], 1)"
    by (rule word [THEN conjunct2, THEN conjunct2, THEN conjunct2, THEN conjunct1,
          rule_format, OF h_word])
  note few = invalid_input_exits_before_repository [of ?few ?w ?w]
  have h_few: "length ?few \<noteq> 4" by simp
  have r_few: "main ?w ?few = (usage, 1)"
    by (rule few [THEN conjunct2, THEN conjunct1, rule_format, OF h_few])
  note same = invalid_input_exits_before_repository
    [of ?same ?w ?w _ "mkTime 2023 5 5 0 0", THEN conjunct2, THEN conjunct2, THEN conjunct2,
      THEN conjunct2, THEN conjunct2, rule_format]
  have h_same: "length ?same = 4 \<and> parseDate (?same ! 2) = Inr (mkTime 2023 5 5 0 0) \<and>
      parseDate (?same ! 3) = Inr (mkTime 2023 5 5 0 0)"
    by (simp add: parse_more_samples)
  have path: "?same ! 1 = ''/repo''" by simp
  note accepted = same [OF h_same, unfolded path]
  note r_same = accepted [THEN conjunct1] and r_go = accepted [THEN conjunct2]
  from invalid r_late r_world r_month r_word r_few r_same r_go show ?thesis
    by (intro conjI)
qed


section \<open>The layout of the header and of an active row (C8)\<close>

text \<open>
  C8, as the code has it.  The header and the row of an active day are five cells of
  25, 15, 11, 11 and 15 characters joined by single \<open>|\<close> characters, followed by a rule
  of 81 dashes.  All five header cells and the four numeric cells of a row are
  centred: a shorter text gets half of the free room, rounded down, on its left and
  the rest on its right.  The date cell of a row is left-aligned: the text comes
  first and the padding follows it on the right.  A text at least as long as its cell
  is cut to exactly the width of the cell.
\<close>

theorem table_row_layout:
  "printTableRow dateRange filesChanged additions deletions totalChanges =
     [padText dateRange 25 @ ''|'' @ centerText (Sprintf_d filesChanged) 15 @ ''|'' @
      centerText (Sprintf_d additions) 11 @ ''|'' @ centerText (Sprintf_d deletions) 11 @
      ''|'' @ centerText (Sprintf_d totalChanges) 15,
      replicate 81 CHR ''-'']
   \<and> printTableHeader =
     [centerText ''Date Range'' 25 @ ''|'' @ centerText ''Files Changed'' 15 @ ''|'' @
      centerText ''Additions'' 11 @ ''|'' @ centerText ''Deletions'' 11 @ ''|'' @
      centerText ''Total Changes'' 15,
      replicate 81 CHR ''-'']
   \<and> (\<forall>t w. length (padText t w) = w \<and> length (centerText t w) = w)
   \<and> (\<forall>t w. w \<le> length t \<longrightarrow> padText t w = take w t \<and> centerText t w = take w t)
   \<and> (\<forall>t w. length t < w \<longrightarrow>
          padText t w = t @ replicate (w - length t) CHR '' '' \<and>
          centerText t w =
            replicate ((w - length t) div 2) CHR '' '' @ t @
            replicate ((w - length t + 1) div 2) CHR '' '')"
proof -
  have row: "printTableRow dateRange filesChanged additions deletions totalChanges =
     [padText dateRange 25 @ ''|'' @ centerText (Sprintf_d filesChanged) 15 @ ''|'' @
      centerText (Sprintf_d additions) 11 @ ''|'' @ centerText (Sprintf_d deletions) 11 @
      ''|'' @ centerText (Sprintf_d totalChanges) 15,
      replicate 81 CHR ''-'']"
    by (simp add: printTableRow_def totalWidth_def dateRangeWidth_def filesChangedWidth_def
        additionsWidth_def deletionsWidth_def totalChangesWidth_def)
  have header: "printTableHeader =
     [centerText ''Date Range'' 25 @ ''|'' @ centerText ''Files Changed'' 15 @ ''|'' @
      centerText ''Additions'' 11 @ ''|'' @ centerText ''Deletions'' 11 @ ''|'' @
      centerText ''Total Changes'' 15,
      replicate 81 CHR ''-'']"
    by (simp add: printTableHeader_def totalWidth_def dateRangeWidth_def filesChangedWidth_def
        additionsWidth_def deletionsWidth_def totalChangesWidth_def)
  have cells: "\<forall>t w. length (padText t w) = w \<and> length (centerText t w) = w"
    by (simp add: length_padText length_centerText)
  have cut: "\<forall>t w. w \<le> length t \<longrightarrow> padText t w = take w t \<and> centerText t w = take w t"
    by (simp add: padText_truncates centerText_truncates)
  have fill: "\<forall>t w. length t < w \<longrightarrow>
          padText t w = t @ replicate (w - length t) CHR '' '' \<and>
          centerText t w =
            replicate ((w - length t) div 2) CHR '' '' @ t @
            replicate ((w - length t + 1) div 2) CHR '' ''"
    using padText_pads centerText_centers by simp
  from row header cells cut fill show ?thesis
    by (intro conjI)
qed

text \<open>
  The row of 2023-08-30 with 2 files, 10 additions and 2 deletions; a text shorter
  than its cell and one longer than its cell.
\<close>

theorem table_row_layout_witness:
  "printTableRow ''2023-08-30'' 2 10 2 12 =
     [''2023-08-30               |       2       |    10     |     2     |      12       '',
      replicate 81 CHR ''-'']
   \<and> printTableHeader =
     [''       Date Range        | Files Changed | Additions | Deletions | Total Changes '',
      replicate 81 CHR ''-'']
   \<and> length ''12'' < (5 :: nat)
   \<and> padText ''12'' 5 = ''12   '' \<and> centerText ''12'' 5 = '' 12  ''
   \<and> (3 :: nat) \<le> length ''2023-08-30''
   \<and> padText ''2023-08-30'' 3 = ''202'' \<and> centerText ''2023-08-30'' 3 = ''202''"
proof -
  note layout = table_row_layout [of "''2023-08-30''" 2 10 2 12]
  note row = layout [THEN conjunct1]
  note header = layout [THEN conjunct2, THEN conjunct1]
  note cut = layout [THEN conjunct2, THEN conjunct2, THEN conjunct2, THEN conjunct1, rule_format]
  note fill = layout [THEN conjunct2, THEN conjunct2, THEN conjunct2, THEN conjunct2, rule_format]
  have cells: "padText ''2023-08-30'' 25 = ''2023-08-30               ''"
    "centerText (Sprintf_d 2) 15 = ''       2       ''"
    "centerText (Sprintf_d 10) 11 = ''    10     ''"
    "centerText (Sprintf_d 2) 11 = ''     2     ''"
    "centerText (Sprintf_d 12) 15 = ''      12       ''"
    "centerText ''Date Range'' 25 = ''       Date Range        ''"
    "centerText ''Files Changed'' 15 = '' Files Changed ''"
    "centerText ''Additions'' 11 = '' Additions ''"
    "centerText ''Deletions'' 11 = '' Deletions ''"
    "centerText ''Total Changes'' 15 = '' Total Changes ''"
    by code_simp+
  have short: "length ''12'' < (5 :: nat)" and long: "(3 :: nat) \<le> length ''2023-08-30''"
    by simp_all
  have blanks: "''12'' @ replicate (5 - length ''12'') CHR '' '' = ''12   ''"
    "replicate ((5 - length ''12'') div 2) CHR '' '' @ ''12'' @
       replicate ((5 - length ''12'' + 1) div 2) CHR '' '' = '' 12  ''"
    by code_simp+
  have "printTableRow ''2023-08-30'' 2 10 2 12 =
     [''2023-08-30               |       2       |    10     |     2     |      12       '',
      replicate 81 CHR ''-'']"
    using row by (simp add: cells)
  moreover have "printTableHeader =
     [''       Date Range        | Files Changed | Additions | Deletions | Total Changes '',
      replicate 81 CHR ''-'']"
    using header by (simp add: cells)
  moreover have "padText ''12'' 5 = ''12   ''" "centerText ''12'' 5 = '' 12  ''"
    using fill [OF short] by (simp_all only: blanks)
  moreover have "padText ''2023-08-30'' 3 = ''202''" "centerText ''2023-08-30'' 3 = ''202''"
    using cut [OF long] by simp_all
  ultimately show ?thesis
    using short long by blast
qed

text \<open>
  C8 as it is worded fails in one place: the date cell is not left-padded.  The row of
  2023-08-30 starts with the date, not with the fifteen blanks of a left-padded cell.
\<close>

theorem date_cell_not_left_padded:
  "take dateRangeWidth (hd (printTableRow ''2023-08-30'' 2 10 2 12)) \<noteq>
   leftPadded ''2023-08-30'' dateRangeWidth"
  by code_simp

end
